theory Spec2Isabelle
  imports Complex_Main "HOL-Library.Signed_Division"
begin

section \<open>Data model\<close>

text \<open>
  The round scheduler and settlement engine live in the repository's
  \<^verbatim>\<open>server/routes/games.js\<close>, which is present in two copies: the named file
  (retry bound 3, transitions driven by \<^verbatim>\<open>GET /current\<close>, no check in
  \<^verbatim>\<open>PUT /:id/end\<close>) and a later copy (retry bound 5, a monitoring interval, a
  completed-check in \<^verbatim>\<open>PUT /:id/end\<close>, and \<^verbatim>\<open>PUT /:id/fix\<close>).
  Functions that are the same in both copies are modelled once; where the copies
  differ, both are modelled and the later copy's name carries the suffix \<open>_v2\<close>.

  A Mongoose collection is a list of documents; the \<^verbatim>\<open>_id\<close> of a document is its
  position in the list (documents are never deleted by this code), so a document held
  by the program is a pair of its position and its fields, and \<^verbatim>\<open>save()\<close> writes the
  fields back at that position. JavaScript numbers are modelled as integers (amounts,
  game numbers, millisecond time stamps), which is exact for integer values up to
  \<open>2 ^ 53\<close> in magnitude; \<^verbatim>\<open>Math.random()\<close> is the real number that the returned
  double stands for, supplied by the caller, and the one floating-point operation
  applied to it is rounded as IEEE 754 prescribes. A JavaScript string is the list of
  its UTF-16 code units; \<open>js\<close> turns an ASCII literal into such a list.
\<close>

type_synonym jsstring = "nat list"

definition js :: "string \<Rightarrow> jsstring" where
  "js s = map of_char s"

datatype game_status = Waiting | Betting | Completed

datatype bet_result = Pending | Win | Loss

record game =
  gameNumber :: int
  status :: game_status
  startTime :: int
  endTime :: "int option"
  isFixed :: bool
  fixedResult :: "int option"
  resultNumber :: "int option"
  resultColor :: "string option"
  resultSize :: "string option"

record bet =
  userId :: nat
  gameId :: nat
  betType :: jsstring
  betValue :: jsstring
  amount :: int
  result :: bet_result
  payout :: int

record txn =
  txn_userId :: nat
  txn_type :: string
  txn_amount :: int
  txn_status :: string

text \<open>
  The database and the module's global variables. \<open>wallets\<close> maps a user id to the
  balance of that user's wallet document (\<^verbatim>\<open>Wallet.findOne({ userId })\<close>).
\<close>

record db =
  games :: "game list"
  bets :: "bet list"
  wallets :: "nat \<rightharpoonup> int"
  transactions :: "txn list"
  gameCreationInProgress :: bool
  continuousGamesEnabled :: bool

type_synonym game_doc = "nat \<times> game"
type_synonym bet_doc = "nat \<times> bet"

text \<open>
  Modelled from the spec: the schemas \<^verbatim>\<open>models/Game\<close> and \<^verbatim>\<open>models/Bet\<close> are not
  among the sources, so the fields a constructor call leaves out take the values the
  spec's data model gives them: a new round has no \<open>closedAt\<close>, no override and no
  outcome; a new wager has settlement \<open>Pending\<close> and payout zero.
\<close>

definition new_Game :: "int \<Rightarrow> game_status \<Rightarrow> int \<Rightarrow> game" where
  "new_Game n st t =
     \<lparr>gameNumber = n, status = st, startTime = t, endTime = None, isFixed = False,
      fixedResult = None, resultNumber = None, resultColor = None, resultSize = None\<rparr>"

definition new_Bet :: "nat \<Rightarrow> nat \<Rightarrow> jsstring \<Rightarrow> jsstring \<Rightarrow> int \<Rightarrow> bet" where
  "new_Bet u g ty v a =
     \<lparr>userId = u, gameId = g, betType = ty, betValue = v, amount = a,
      result = Pending, payout = 0\<rparr>"

section \<open>JavaScript built-ins used by the settlement\<close>

subsection \<open>Rounding to a double\<close>

text \<open>
  Round to the nearest integer, ties to the even one: the rounding of a significand.
\<close>

definition roundHalfEven :: "real \<Rightarrow> int" where
  "roundHalfEven q =
     (let f = \<lfloor>q\<rfloor> in
      if q - of_int f < 1/2 then f
      else if q - of_int f > 1/2 then f + 1
      else if even f then f else f + 1)"

text \<open>
  The spacing of the doubles around \<open>x\<close>, for \<open>0 \<le> x < 16\<close>: in the binade
  \<open>[2 ^ e, 2 ^ (e + 1))\<close> it is \<open>2 ^ (e - 52)\<close>. The search starts at the binade
  \<open>[8, 16)\<close> with spacing \<open>2 ^ - 49\<close> and halves it until the binade contains
  \<open>x\<close>, at most 1025 times, which ends at the spacing \<open>2 ^ - 1074\<close> of the
  subnormal numbers.
\<close>

fun binadeUlp :: "real \<Rightarrow> nat \<Rightarrow> real \<Rightarrow> real" where
  "binadeUlp u n x = (if n = 0 \<or> u * 2 ^ 52 \<le> x then u else binadeUlp (u / 2) (n - 1) x)"

definition ulp64 :: "real \<Rightarrow> real" where
  "ulp64 x = binadeUlp (1 / 2 ^ 49) 1025 x"

text \<open>
  The double nearest to \<open>x\<close> (round to nearest, ties to even), for
  \<open>0 \<le> x < 16\<close>: the result of a floating-point operation whose exact value is
  \<open>x\<close>.
\<close>

definition fl64 :: "real \<Rightarrow> real" where
  "fl64 x = of_int (roundHalfEven (x / ulp64 x)) * ulp64 x"

text \<open>
  \<^verbatim>\<open>Math.floor(Math.random() * 10)\<close>, for the value \<open>r\<close> of \<^verbatim>\<open>Math.random()\<close>,
  a double with \<open>0 \<le> r < 1\<close>: the product is rounded to a double, and the floor of a
  double is exact.
\<close>

definition randomResult :: "real \<Rightarrow> int" where
  "randomResult r = \<lfloor>fl64 (r * 10)\<rfloor>"

text \<open>
  The Number for a mathematical integer \<open>v\<close>: \<open>v\<close> itself below \<open>2 ^ 53\<close> in
  magnitude, and otherwise \<open>v\<close> rounded to 53 significant bits, to nearest with
  ties to even (overflow to \<^verbatim>\<open>Infinity\<close> is not modelled; beyond 20 significant
  digits ECMAScript lets \<^verbatim>\<open>parseInt\<close> approximate, and the rounding here is the
  exact one).
\<close>

fun shiftOf :: "nat \<Rightarrow> nat" where
  "shiftOf v = (if v < 2 ^ 53 then 0 else Suc (shiftOf (v div 2)))"

definition toNumber :: "int \<Rightarrow> int" where
  "toNumber v =
     (let e = shiftOf (nat \<bar>v\<bar>)
      in sgn v * roundHalfEven (of_int \<bar>v\<bar> / 2 ^ e) * 2 ^ e)"

subsection \<open>\<^verbatim>\<open>parseInt\<close>\<close>

text \<open>
  \<^verbatim>\<open>parseInt(string)\<close> with no radix, after ECMAScript: leading white space and line
  terminators are skipped (TAB, LF, VT, FF, CR, SP, NBSP, U+1680, U+2000 to U+200A,
  U+2028, U+2029, U+202F, U+205F, U+3000, U+FEFF), an optional sign is read, a
  prefix \<^verbatim>\<open>0x\<close>/\<^verbatim>\<open>0X\<close> selects radix 16, the longest prefix of digits is
  converted to a Number, and the result is \<^verbatim>\<open>NaN\<close> (here \<open>None\<close>) when there is no
  digit. \<^verbatim>\<open>NaN === n\<close> is false for every number, as \<open>None = Some n\<close> is.
\<close>

definition isWhiteSpace :: "nat \<Rightarrow> bool" where
  "isWhiteSpace c =
     (c \<in> {9, 10, 11, 12, 13, 32, 160, 5760, 8232, 8233, 8239, 8287, 12288, 65279}
      \<or> (8192 \<le> c \<and> c \<le> 8202))"

definition digitValue :: "nat \<Rightarrow> nat option" where
  "digitValue c =
     (if 48 \<le> c \<and> c \<le> 57 then Some (c - 48)
      else if 97 \<le> c \<and> c \<le> 122 then Some (c - 87)
      else if 65 \<le> c \<and> c \<le> 90 then Some (c - 55)
      else None)"

definition isRadixDigit :: "nat \<Rightarrow> nat \<Rightarrow> bool" where
  "isRadixDigit R c = (case digitValue c of None \<Rightarrow> False | Some d \<Rightarrow> d < R)"

definition digitsValue :: "nat \<Rightarrow> jsstring \<Rightarrow> nat" where
  "digitsValue R Z =
     foldl (\<lambda>a c. a * R + (case digitValue c of None \<Rightarrow> 0 | Some d \<Rightarrow> d)) 0 Z"

definition parseInt :: "jsstring \<Rightarrow> int option" where
  "parseInt str =
     (let S = dropWhile isWhiteSpace str;
          sign = (if take 1 S = js ''-'' then - 1 else (1::int));
          S1 = (if take 1 S = js ''+'' \<or> take 1 S = js ''-'' then drop 1 S else S);
          hex = (take 2 S1 = js ''0x'' \<or> take 2 S1 = js ''0X'');
          R = (if hex then 16 else 10);
          S2 = (if hex then drop 2 S1 else S1);
          Z = takeWhile (isRadixDigit R) S2
      in if Z = [] then None else Some (toNumber (sign * int (digitsValue R Z))))"

text \<open>
  The decimal numeral of an integer, as \<^verbatim>\<open>String(n)\<close> writes it (below \<open>10 ^ 21\<close> in
  magnitude): the selector that "equals the outcome value exactly".
\<close>

fun digitsOf :: "nat \<Rightarrow> jsstring" where
  "digitsOf n = (if n < 10 then [48 + n] else digitsOf (n div 10) @ [48 + n mod 10])"

definition decimalString :: "int \<Rightarrow> jsstring" where
  "decimalString n = (if n < 0 then 45 # digitsOf (nat (- n)) else digitsOf (nat n))"

section \<open>Result generation and settlement: \<^verbatim>\<open>endGameAndProcessBets\<close>\<close>

text \<open>
  \<^verbatim>\<open>game.fixedResult !== null ? game.fixedResult : Math.floor(Math.random() * 10)\<close>
\<close>

definition resolveResultNumber :: "game \<Rightarrow> real \<Rightarrow> int" where
  "resolveResultNumber g r =
     (case fixedResult g of Some v \<Rightarrow> v | None \<Rightarrow> randomResult r)"

text \<open>
  \<^verbatim>\<open>resultNumber === 0 ? 'green' : (resultNumber % 2 === 0 ? 'red' : 'green')\<close>;
  JavaScript's \<^verbatim>\<open>%\<close> truncates toward zero, which is \<open>smod\<close>.
\<close>

definition resultColorOf :: "int \<Rightarrow> string" where
  "resultColorOf n =
     (if n = 0 then ''green'' else if n smod 2 = 0 then ''red'' else ''green'')"

text \<open>\<^verbatim>\<open>resultNumber >= 5 ? 'big' : 'small'\<close>\<close>

definition resultSizeOf :: "int \<Rightarrow> string" where
  "resultSizeOf n = (if n \<ge> 5 then ''big'' else ''small'')"

text \<open>
  The \<^verbatim>\<open>switch (bet.betType)\<close> of the settlement loop: the pair of \<^verbatim>\<open>isWin\<close> and
  \<^verbatim>\<open>multiplier\<close>. A bet type outside the three cases leaves the initial values
  \<^verbatim>\<open>false\<close> and \<^verbatim>\<open>1\<close>.
\<close>

definition isWin :: "int \<Rightarrow> bet \<Rightarrow> bool" where
  "isWin rn b =
     (if betType b = js ''number'' then parseInt (betValue b) = Some rn
      else if betType b = js ''color'' then betValue b = js (resultColorOf rn)
      else if betType b = js ''size'' then betValue b = js (resultSizeOf rn)
      else False)"

definition multiplier :: "bet \<Rightarrow> int" where
  "multiplier b =
     (if betType b = js ''number'' then 9
      else if betType b = js ''color'' then 2
      else if betType b = js ''size'' then 2
      else 1)"

text \<open>
  \<^verbatim>\<open>bet.result = isWin ? 'win' : 'loss'; bet.payout = isWin ? bet.amount * multiplier : 0\<close>
\<close>

definition settled :: "int \<Rightarrow> bet \<Rightarrow> bet" where
  "settled rn b =
     b\<lparr>result := (if isWin rn b then Win else Loss),
       payout := (if isWin rn b then amount b * multiplier b else 0)\<rparr>"

text \<open>
  The wallet update of a winning bet: \<^verbatim>\<open>if (wallet) { wallet.balance += bet.payout }\<close>.
  Without a wallet document nothing happens and nothing is reported.
\<close>

definition creditWallet :: "nat \<Rightarrow> int \<Rightarrow> (nat \<rightharpoonup> int) \<Rightarrow> (nat \<rightharpoonup> int)" where
  "creditWallet u p ws = (case ws u of None \<Rightarrow> ws | Some bal \<Rightarrow> ws(u \<mapsto> bal + p))"

definition winTransaction :: "bet \<Rightarrow> txn" where
  "winTransaction b =
     \<lparr>txn_userId = userId b, txn_type = ''win'', txn_amount = payout b,
      txn_status = ''approved''\<rparr>"

text \<open>
  One iteration of \<^verbatim>\<open>for (const bet of bets)\<close>, for the fetched document
  \<open>(i, b)\<close>: save the settled bet, and for a win credit the wallet if there is one and
  append the transaction (whether or not there was a wallet).
\<close>

definition processBet :: "int \<Rightarrow> db \<Rightarrow> bet_doc \<Rightarrow> db" where
  "processBet rn s d =
     (let i = fst d; b = snd d;
          b' = settled rn b;
          s1 = s\<lparr>bets := (bets s)[i := b']\<rparr>
      in if isWin rn b
         then s1\<lparr>wallets := creditWallet (userId b') (payout b') (wallets s1),
                 transactions := transactions s1 @ [winTransaction b']\<rparr>
         else s1)"

fun processBets :: "int \<Rightarrow> bet_doc list \<Rightarrow> db \<Rightarrow> db" where
  "processBets rn [] s = s"
| "processBets rn (d # ds) s = processBets rn ds (processBet rn s d)"

text \<open>\<^verbatim>\<open>Bet.find({ gameId: game._id, result: 'pending' })\<close>\<close>

definition findPendingBets :: "db \<Rightarrow> nat \<Rightarrow> bet_doc list" where
  "findPendingBets s gid =
     filter (\<lambda>d. gameId (snd d) = gid \<and> result (snd d) = Pending) (enumerate 0 (bets s))"

text \<open>
  \<^verbatim>\<open>endGameAndProcessBets(game)\<close> for the document \<open>(gid, g)\<close>, the value \<open>r\<close> of
  \<^verbatim>\<open>Math.random()\<close> and the time \<open>now\<close> of \<^verbatim>\<open>new Date()\<close>.
\<close>

definition closedGame :: "game \<Rightarrow> real \<Rightarrow> int \<Rightarrow> game" where
  "closedGame g r now =
     (let rn = resolveResultNumber g r in
      g\<lparr>status := Completed, endTime := Some now, resultNumber := Some rn,
        resultColor := Some (resultColorOf rn), resultSize := Some (resultSizeOf rn)\<rparr>)"

definition endGameAndProcessBets :: "db \<Rightarrow> game_doc \<Rightarrow> real \<Rightarrow> int \<Rightarrow> db" where
  "endGameAndProcessBets s gd r now =
     (let gid = fst gd; g = snd gd;
          rn = resolveResultNumber g r;
          s1 = s\<lparr>games := (games s)[gid := closedGame g r now]\<rparr>
      in processBets rn (findPendingBets s1 gid) s1)"

section \<open>Round creation: \<^verbatim>\<open>createNewGameSafely\<close>\<close>

definition isActive :: "game \<Rightarrow> bool" where
  "isActive g = (status g = Waiting \<or> status g = Betting)"

text \<open>
  \<^verbatim>\<open>Game.findOne({ status: { $in: ['waiting', 'betting'] } }).sort({ createdAt: -1 })\<close>:
  the active game created last, or \<^verbatim>\<open>null\<close>.
\<close>

definition findActiveGames :: "db \<Rightarrow> game_doc list" where
  "findActiveGames s = filter (\<lambda>d. isActive (snd d)) (enumerate 0 (games s))"

definition findActiveGame :: "db \<Rightarrow> game_doc option" where
  "findActiveGame s =
     (case findActiveGames s of [] \<Rightarrow> None | d # ds \<Rightarrow> Some (last (d # ds)))"

text \<open>\<^verbatim>\<open>Game.findById(id)\<close>\<close>

definition findGameById :: "db \<Rightarrow> nat \<Rightarrow> game option" where
  "findGameById s gid = (if gid < length (games s) then Some (games s ! gid) else None)"

text \<open>
  \<^verbatim>\<open>lastGame = Game.findOne().sort({ gameNumber: -1 })\<close> and
  \<^verbatim>\<open>nextGameNumber = lastGame ? lastGame.gameNumber + 1 : 1\<close>
\<close>

definition nextGameNumber :: "db \<Rightarrow> int" where
  "nextGameNumber s =
     (case games s of [] \<Rightarrow> 1
      | g # gs \<Rightarrow> fold (\<lambda>h m. max (gameNumber h) m) gs (gameNumber g) + 1)"

text \<open>
  \<^verbatim>\<open>game.save()\<close> of a new game. The unique index on \<^verbatim>\<open>gameNumber\<close> rejects a
  number that is taken with the duplicate key error 11000, here \<open>None\<close>.
\<close>

definition saveNewGame :: "db \<Rightarrow> game \<Rightarrow> db option" where
  "saveNewGame s g =
     (if gameNumber g \<in> set (map gameNumber (games s)) then None
      else Some (s\<lparr>games := games s @ [g]\<rparr>))"

text \<open>
  The retry loop \<^verbatim>\<open>while (attempts < maxAttempts)\<close>; \<open>maxAttempts\<close> is 3 in the
  named file and 5 in the later copy. The clock value \<open>now\<close> stands for
  \<^verbatim>\<open>Date.now()\<close> of the attempt.
\<close>

function createLoop :: "nat \<Rightarrow> int \<Rightarrow> int \<Rightarrow> db \<Rightarrow> nat \<Rightarrow> db \<times> game_doc option" where
  "createLoop maxAttempts nextNum now s attempts =
     (if attempts < maxAttempts then
        (let g = new_Game (nextNum + int attempts) Waiting (now + 5000) in
         case saveNewGame s g of
           Some s' \<Rightarrow> (s', Some (length (games s), g))
         | None \<Rightarrow>
             if Suc attempts \<ge> maxAttempts then (s, None)
             else createLoop maxAttempts nextNum now s (Suc attempts))
      else (s, None))"
  by pat_completeness auto
termination
  by (relation "measure (\<lambda>(m, n, t, s, a). m - a)") auto

definition createNewGameSafelyN :: "nat \<Rightarrow> db \<Rightarrow> int \<Rightarrow> db \<times> game_doc option" where
  "createNewGameSafelyN maxAttempts s now =
     (if gameCreationInProgress s then (s, None)
      else
        let s1 = s\<lparr>gameCreationInProgress := True\<rparr> in
        case findActiveGame s1 of
          Some existingGame \<Rightarrow> (s1\<lparr>gameCreationInProgress := False\<rparr>, Some existingGame)
        | None \<Rightarrow>
            let res = createLoop maxAttempts (nextGameNumber s1) now s1 0
            in ((fst res)\<lparr>gameCreationInProgress := False\<rparr>, snd res))"

definition createNewGameSafely :: "db \<Rightarrow> int \<Rightarrow> db \<times> game_doc option" where
  "createNewGameSafely = createNewGameSafelyN 3"

definition createNewGameSafely_v2 :: "db \<Rightarrow> int \<Rightarrow> db \<times> game_doc option" where
  "createNewGameSafely_v2 = createNewGameSafelyN 5"

section \<open>The routes\<close>

datatype 'a response = Status200 'a | Status400 string | Status404 string

text \<open>
  \<^verbatim>\<open>POST /bet\<close> for the authenticated user \<open>u\<close> and the request body
  \<^verbatim>\<open>{ gameId, betType, betValue, amount }\<close>.
\<close>

definition betTransaction :: "nat \<Rightarrow> int \<Rightarrow> txn" where
  "betTransaction u amt =
     \<lparr>txn_userId = u, txn_type = ''bet'', txn_amount = - amt, txn_status = ''approved''\<rparr>"

definition postBet :: "db \<Rightarrow> nat \<Rightarrow> nat \<Rightarrow> jsstring \<Rightarrow> jsstring \<Rightarrow> int \<Rightarrow> db \<times> bet_doc response" where
  "postBet s u gid ty v amt =
     (case findGameById s gid of
        None \<Rightarrow> (s, Status400 ''Game is not accepting bets'')
      | Some g \<Rightarrow>
          if status g \<noteq> Betting then (s, Status400 ''Game is not accepting bets'')
          else
            (case List.find (\<lambda>b. userId b = u \<and> gameId b = gid) (bets s) of
               Some existingBet \<Rightarrow>
                 (s, Status400 ''You have already placed a bet for this game'')
             | None \<Rightarrow>
                 (case wallets s u of
                    None \<Rightarrow> (s, Status400 ''Insufficient balance'')
                  | Some bal \<Rightarrow>
                      if bal < amt then (s, Status400 ''Insufficient balance'')
                      else
                        let b = new_Bet u gid ty v amt;
                            s1 = s\<lparr>bets := bets s @ [b]\<rparr>;
                            s2 = s1\<lparr>wallets := (wallets s1)(u \<mapsto> bal - amt)\<rparr>;
                            s3 = s2\<lparr>transactions :=
                                    transactions s2 @ [betTransaction u amt]\<rparr>
                        in (s3, Status200 (length (bets s), b)))))"

text \<open>\<^verbatim>\<open>PUT /:id/end\<close> of the named file: no check of the game's status.\<close>

definition putEnd :: "db \<Rightarrow> nat \<Rightarrow> real \<Rightarrow> int \<Rightarrow> db \<times> game_doc response" where
  "putEnd s gid r now =
     (case findGameById s gid of
        None \<Rightarrow> (s, Status404 ''Game not found'')
      | Some g \<Rightarrow>
          (endGameAndProcessBets s (gid, g) r now, Status200 (gid, closedGame g r now)))"

text \<open>\<^verbatim>\<open>PUT /:id/end\<close> of the later copy: a completed game is refused.\<close>

definition putEnd_v2 :: "db \<Rightarrow> nat \<Rightarrow> real \<Rightarrow> int \<Rightarrow> db \<times> game_doc response" where
  "putEnd_v2 s gid r now =
     (case findGameById s gid of
        None \<Rightarrow> (s, Status404 ''Game not found'')
      | Some g \<Rightarrow>
          if status g = Completed then (s, Status400 ''Game is already completed'')
          else (endGameAndProcessBets s (gid, g) r now, Status200 (gid, closedGame g r now)))"

text \<open>
  \<^verbatim>\<open>Game.updateMany({ status: { $in: ['waiting', 'betting'] } },
  { status: 'completed', endTime: new Date() })\<close>
\<close>

definition completeActiveGames :: "int \<Rightarrow> game list \<Rightarrow> game list" where
  "completeActiveGames now gs =
     map (\<lambda>g. if isActive g then g\<lparr>status := Completed, endTime := Some now\<rparr> else g) gs"

text \<open>
  \<^verbatim>\<open>POST /start-continuous\<close> of the named file: the flag is set, the active games
  are marked completed, a game is created and put into betting at once.
\<close>

definition postStartContinuous :: "db \<Rightarrow> int \<Rightarrow> db \<times> game_doc response" where
  "postStartContinuous s now =
     (let s1 = s\<lparr>continuousGamesEnabled := True\<rparr>;
          s2 = s1\<lparr>games := completeActiveGames now (games s1)\<rparr>;
          res = createNewGameSafely s2 now
      in case snd res of
           Some d \<Rightarrow>
             (let g' = (snd d)\<lparr>status := Betting, startTime := now\<rparr>
              in ((fst res)\<lparr>games := (games (fst res))[fst d := g']\<rparr>, Status200 (fst d, g')))
         | None \<Rightarrow> (fst res, Status400 ''Failed to start continuous games''))"

text \<open>
  \<^verbatim>\<open>POST /start-continuous\<close> of the later copy: the created game stays waiting (the
  monitoring interval opens it).
\<close>

definition postStartContinuous_v2 :: "db \<Rightarrow> int \<Rightarrow> db \<times> game_doc response" where
  "postStartContinuous_v2 s now =
     (let s1 = s\<lparr>continuousGamesEnabled := True\<rparr>;
          s2 = s1\<lparr>games := completeActiveGames now (games s1)\<rparr>;
          res = createNewGameSafely_v2 s2 now
      in case snd res of
           Some d \<Rightarrow> (fst res, Status200 d)
         | None \<Rightarrow> (fst res, Status400 ''Failed to start continuous games''))"

text \<open>
  \<^verbatim>\<open>POST /stop-continuous\<close> (both copies): every active game found is ended with
  \<^verbatim>\<open>endGameAndProcessBets\<close>; the \<open>k\<close>-th call draws \<open>rs k\<close>.
\<close>

fun endGames :: "game_doc list \<Rightarrow> (nat \<Rightarrow> real) \<Rightarrow> int \<Rightarrow> db \<Rightarrow> db" where
  "endGames [] rs now s = s"
| "endGames (d # ds) rs now s =
     endGames ds (\<lambda>k. rs (Suc k)) now (endGameAndProcessBets s d (rs 0) now)"

definition postStopContinuous :: "db \<Rightarrow> (nat \<Rightarrow> real) \<Rightarrow> int \<Rightarrow> db" where
  "postStopContinuous s rs now =
     (let s1 = s\<lparr>continuousGamesEnabled := False\<rparr>
      in endGames (findActiveGames s1) rs now s1)"

text \<open>
  \<^verbatim>\<open>PUT /:id/fix\<close> (later copy only) with the request body \<^verbatim>\<open>{ fixedResult }\<close>.
\<close>

definition putFix_v2 :: "db \<Rightarrow> nat \<Rightarrow> int option \<Rightarrow> db \<times> game_doc response" where
  "putFix_v2 s gid v =
     (case findGameById s gid of
        None \<Rightarrow> (s, Status404 ''Game not found'')
      | Some g \<Rightarrow>
          if status g = Completed then (s, Status400 ''Cannot fix result of completed game'')
          else
            (let g' = g\<lparr>isFixed := True, fixedResult := v\<rparr>
             in (s\<lparr>games := (games s)[gid := g']\<rparr>, Status200 (gid, g'))))"

text \<open>
  \<^verbatim>\<open>(settings?.gameDuration || 60) * 1000\<close>, for the stored setting if there is one.
\<close>

definition bettingDuration :: "int option \<Rightarrow> int" where
  "bettingDuration gameDuration =
     (case gameDuration of None \<Rightarrow> 60 | Some d \<Rightarrow> if d = 0 then 60 else d) * 1000"

text \<open>
  The transition check on the active game \<open>(gid, g)\<close>, the same statements in the
  monitoring interval of the later copy and in \<^verbatim>\<open>GET /current\<close> of the named file:
  a waiting game whose start time has come is put into betting, and a betting game
  whose duration is over is ended.
\<close>

definition checkTransitions :: "db \<Rightarrow> game_doc \<Rightarrow> int \<Rightarrow> int option \<Rightarrow> real \<Rightarrow> db" where
  "checkTransitions s gd now gameDuration r =
     (let gid = fst gd; g = snd gd;
          opens = (status g = Waiting \<and> now \<ge> startTime g);
          g1 = (if opens then g\<lparr>status := Betting\<rparr> else g);
          s1 = (if opens then s\<lparr>games := (games s)[gid := g1]\<rparr> else s)
      in if status g1 = Betting \<and> now \<ge> startTime g1 + bettingDuration gameDuration
         then endGameAndProcessBets s1 (gid, g1) r now
         else s1)"

text \<open>One run of the monitoring interval's callback (later copy).\<close>

definition monitorTick_v2 :: "db \<Rightarrow> int \<Rightarrow> int option \<Rightarrow> real \<Rightarrow> db" where
  "monitorTick_v2 s now gameDuration r =
     (if \<not> continuousGamesEnabled s then s
      else case findActiveGame s of
             None \<Rightarrow> fst (createNewGameSafely_v2 s now)
           | Some activeGame \<Rightarrow> checkTransitions s activeGame now gameDuration r)"

text \<open>\<^verbatim>\<open>GET /current\<close> of the named file.\<close>

definition getCurrent :: "db \<Rightarrow> int \<Rightarrow> int option \<Rightarrow> real \<Rightarrow> db" where
  "getCurrent s now gameDuration r =
     (case findActiveGame s of
        None \<Rightarrow> if continuousGamesEnabled s then fst (createNewGameSafely s now) else s
      | Some game \<Rightarrow> checkTransitions s game now gameDuration r)"

section \<open>Auxiliary notions for the statements\<close>

text \<open>A sequence of creation attempts, one for each clock value of the list.\<close>

definition createAttempts :: "nat \<Rightarrow> int list \<Rightarrow> db \<Rightarrow> db" where
  "createAttempts maxAttempts ts s =
     fold (\<lambda>t s'. fst (createNewGameSafelyN maxAttempts s' t)) ts s"

text \<open>The sum of the payouts that the bets \<open>bs\<close> win for user \<open>u\<close> at result \<open>rn\<close>.\<close>

definition winnings :: "int \<Rightarrow> nat \<Rightarrow> bet list \<Rightarrow> int" where
  "winnings rn u bs =
     sum_list (map (\<lambda>b. if isWin rn b \<and> userId b = u then amount b * multiplier b else 0) bs)"

text \<open>
  A database for the examples: game 0 is open with three pending bets; user 7 has
  no wallet document.
\<close>

definition exampleGame :: game where
  "exampleGame = new_Game 1 Betting 0"

definition exampleDb :: db where
  "exampleDb =
     \<lparr>games = [exampleGame],
      bets = [new_Bet 7 0 (js ''number'') (js ''3'') 10,
              new_Bet 8 0 (js ''color'') (js ''red'') 5,
              new_Bet 9 0 (js ''size'') (js ''small'') 4],
      wallets = [8 \<mapsto> 100, 9 \<mapsto> 1],
      transactions = [],
      gameCreationInProgress = False,
      continuousGamesEnabled = False\<rparr>"

text \<open>The same round after it was closed with outcome 3 at time 1000.\<close>

definition closedExampleGame :: game where
  "closedExampleGame =
     exampleGame\<lparr>status := Completed, endTime := Some 1000, resultNumber := Some 3,
       resultColor := Some ''green'', resultSize := Some ''small''\<rparr>"

definition closedExampleDb :: db where
  "closedExampleDb = exampleDb\<lparr>games := [closedExampleGame], bets := []\<rparr>"

text \<open>
  The open round with four bets on a number: the selectors \<^verbatim>\<open>3abc\<close>, a no-break
  space followed by \<^verbatim>\<open>3\<close>, and \<^verbatim>\<open>4\<close> with stake 0 and with stake 10.
\<close>

definition numberBetsDb :: db where
  "numberBetsDb =
     exampleDb\<lparr>bets := [new_Bet 7 0 (js ''number'') (js ''3abc'') 10,
                        new_Bet 8 0 (js ''number'') (160 # js ''3'') 5,
                        new_Bet 9 0 (js ''number'') (js ''4'') 0,
                        new_Bet 10 0 (js ''number'') (js ''4'') 10]\<rparr>"

section \<open>The operations as transitions\<close>

text \<open>
  One request or timer callback changes the database. \<open>step\<close> collects the
  operations of the named file, \<open>step_v2\<close> those of the later copy; the timer that
  creates the next round calls \<^verbatim>\<open>createNewGameSafely\<close>, as \<^verbatim>\<open>POST /create\<close> does.
\<close>

inductive step :: "db \<Rightarrow> db \<Rightarrow> bool" where
  step_current: "step s (getCurrent s now gameDuration r)"
| step_create: "step s (fst (createNewGameSafely s now))"
| step_bet: "step s (fst (postBet s u gid ty v amt))"
| step_end: "step s (fst (putEnd s gid r now))"
| step_start: "step s (fst (postStartContinuous s now))"
| step_stop: "step s (postStopContinuous s rs now)"

inductive step_v2 :: "db \<Rightarrow> db \<Rightarrow> bool" where
  step_v2_tick: "step_v2 s (monitorTick_v2 s now gameDuration r)"
| step_v2_create: "step_v2 s (fst (createNewGameSafely_v2 s now))"
| step_v2_bet: "step_v2 s (fst (postBet s u gid ty v amt))"
| step_v2_end: "step_v2 s (fst (putEnd_v2 s gid r now))"
| step_v2_fix: "step_v2 s (fst (putFix_v2 s gid v))"
| step_v2_start: "step_v2 s (fst (postStartContinuous_v2 s now))"
| step_v2_stop: "step_v2 s (postStopContinuous s rs now)"

text \<open>A round without outcome, and the databases whose active rounds have none.\<close>

definition outcomeUnset :: "game \<Rightarrow> bool" where
  "outcomeUnset g = (resultNumber g = None \<and> resultColor g = None \<and> resultSize g = None)"

definition outcomeOnlyWhenClosed :: "db \<Rightarrow> bool" where
  "outcomeOnlyWhenClosed s = list_all (\<lambda>g. isActive g \<longrightarrow> outcomeUnset g) (games s)"

text \<open>
  Round \<open>gid\<close> is the same in \<open>s'\<close> as in \<open>s\<close>: its document and the bets
  placed on it (\<^verbatim>\<open>Bet.find({ gameId })\<close>).
\<close>

definition roundUnchanged :: "nat \<Rightarrow> db \<Rightarrow> db \<Rightarrow> bool" where
  "roundUnchanged gid s s' =
     (gid < length (games s') \<and> games s' ! gid = games s ! gid
      \<and> filter (\<lambda>b. gameId b = gid) (bets s') = filter (\<lambda>b. gameId b = gid) (bets s))"

section \<open>Lemmas about the built-ins\<close>

declare binadeUlp.simps [simp del] shiftOf.simps [simp del] digitsOf.simps [simp del]

lemma binadeUlp_form: "\<exists>i. binadeUlp u n x = u / 2 ^ i"
proof (induction u n x rule: binadeUlp.induct)
  case (1 u n x)
  show ?case
  proof (cases "n = 0 \<or> u * 2 ^ 52 \<le> x")
    case True
    then have "binadeUlp u n x = u / 2 ^ 0" by (simp add: binadeUlp.simps [of u n x])
    then show ?thesis by blast
  next
    case False
    from "1.IH" [OF False] obtain i where "binadeUlp (u / 2) (n - 1) x = u / 2 / 2 ^ i" by blast
    with False have "binadeUlp u n x = u / 2 ^ Suc i" by (simp add: binadeUlp.simps [of u n x])
    then show ?thesis by blast
  qed
qed

lemma ulp64_form: "\<exists>j. 49 \<le> j \<and> ulp64 x = 1 / 2 ^ j"
proof -
  obtain i where "binadeUlp (1 / 2 ^ 49) 1025 x = 1 / 2 ^ 49 / 2 ^ i"
    using binadeUlp_form by blast
  then have "ulp64 x = 1 / 2 ^ (49 + i)" by (simp add: ulp64_def power_add)
  then show ?thesis by (intro exI [of _ "49 + i"]) simp
qed

lemma roundHalfEven_ge: "of_int N \<le> q \<Longrightarrow> N \<le> roundHalfEven q"
proof -
  assume "of_int N \<le> q"
  then have "N \<le> \<lfloor>q\<rfloor>" by (simp add: le_floor_iff)
  then show ?thesis by (simp add: roundHalfEven_def Let_def)
qed

lemma roundHalfEven_less: "q < of_int N - 1/2 \<Longrightarrow> roundHalfEven q < N"
proof -
  assume a: "q < of_int N - 1/2"
  then have f: "\<lfloor>q\<rfloor> < N" by (simp add: floor_less_iff)
  show ?thesis
  proof (cases "q - of_int \<lfloor>q\<rfloor> < 1/2")
    case True
    with f show ?thesis by (simp add: roundHalfEven_def Let_def)
  next
    case False
    then have "of_int \<lfloor>q\<rfloor> + 1/2 \<le> q" by simp
    with a have "of_int \<lfloor>q\<rfloor> + 1 < (of_int N :: real)" by simp
    then have "\<lfloor>q\<rfloor> + 1 < N" by linarith
    then show ?thesis by (simp add: roundHalfEven_def Let_def)
  qed
qed

lemma fl64_ge: "of_int k \<le> x \<Longrightarrow> of_int k \<le> fl64 x"
proof -
  assume a: "of_int k \<le> x"
  obtain j where u: "ulp64 x = 1 / 2 ^ j" using ulp64_form by blast
  have "of_int (k * 2 ^ j) \<le> x / ulp64 x" using a by (simp add: u)
  then have "k * 2 ^ j \<le> roundHalfEven (x / ulp64 x)" by (rule roundHalfEven_ge)
  then have "of_int (k * 2 ^ j) \<le> (of_int (roundHalfEven (x / ulp64 x)) :: real)"
    by (simp only: of_int_le_iff)
  then show ?thesis by (simp add: fl64_def u field_simps)
qed

lemma fl64_less: "x < of_int k - 1 / 2 ^ 50 \<Longrightarrow> fl64 x < of_int k"
proof -
  assume a: "x < of_int k - 1 / 2 ^ 50"
  obtain j where j: "49 \<le> j" and u: "ulp64 x = 1 / 2 ^ j" using ulp64_form by blast
  have "(2::real) ^ 49 \<le> 2 ^ j" using j by (intro power_increasing) simp_all
  then have h: "(2::real) ^ j / 2 ^ 50 \<ge> 1/2" by simp
  have "x * 2 ^ j < (of_int k - 1 / 2 ^ 50) * 2 ^ j" using a by simp
  also have "\<dots> = of_int k * 2 ^ j - 2 ^ j / 2 ^ 50" by (simp add: algebra_simps)
  also have "\<dots> \<le> of_int k * 2 ^ j - 1/2" using h by simp
  finally have "x / ulp64 x < of_int (k * 2 ^ j) - 1/2" by (simp add: u)
  then have "roundHalfEven (x / ulp64 x) < k * 2 ^ j" by (rule roundHalfEven_less)
  then have "(of_int (roundHalfEven (x / ulp64 x)) :: real) < of_int (k * 2 ^ j)"
    by (simp only: of_int_less_iff)
  then show ?thesis by (simp add: fl64_def u field_simps)
qed

lemma randomResult_ge: "of_int k \<le> r * 10 \<Longrightarrow> k \<le> randomResult r"
  unfolding randomResult_def by (simp add: le_floor_iff fl64_ge)

lemma randomResult_le: "r * 10 < of_int k + 1 - 1 / 2 ^ 50 \<Longrightarrow> randomResult r \<le> k"
proof -
  assume "r * 10 < of_int k + 1 - 1 / 2 ^ 50"
  then have "r * 10 < of_int (k + 1) - 1 / 2 ^ 50" by simp
  then have "fl64 (r * 10) < of_int (k + 1)" by (rule fl64_less)
  then have "\<lfloor>fl64 (r * 10)\<rfloor> < k + 1" by (simp only: floor_less_iff)
  then show ?thesis by (simp add: randomResult_def)
qed

lemma randomResult_range:
  "0 \<le> r \<Longrightarrow> r \<le> 1 - 1 / 2 ^ 53 \<Longrightarrow> 0 \<le> randomResult r \<and> randomResult r \<le> 9"
proof -
  assume a: "0 \<le> r" and b: "r \<le> 1 - 1 / 2 ^ 53"
  from a have "of_int 0 \<le> r * 10" by simp
  then have lo: "0 \<le> randomResult r" by (rule randomResult_ge)
  from b have "r * 10 \<le> 10 - 10 / 2 ^ 53" by simp
  also have "\<dots> < of_int 9 + 1 - 1 / 2 ^ 50" by simp
  finally have "randomResult r \<le> 9" by (rule randomResult_le)
  with lo show ?thesis by simp
qed

lemma randomResult_interval:
  "of_int k \<le> r * 10 \<Longrightarrow> r * 10 < of_int k + 1 - 1 / 2 ^ 50 \<Longrightarrow> randomResult r = k"
  using randomResult_ge [of k r] randomResult_le [of r k] by simp

lemma randomResult_preimage:
  assumes "randomResult r = k"
  shows "of_int k - 1 / 2 ^ 50 \<le> r * 10 \<and> r * 10 < of_int k + 1"
proof -
  have "\<not> r * 10 < of_int k - 1 / 2 ^ 50"
  proof
    assume "r * 10 < of_int k - 1 / 2 ^ 50"
    then have "r * 10 < of_int (k - 1) + 1 - 1 / 2 ^ 50" by simp
    then have "randomResult r \<le> k - 1" by (rule randomResult_le)
    with assms show False by simp
  qed
  moreover have "\<not> of_int k + 1 \<le> r * 10"
  proof
    assume "of_int k + 1 \<le> r * 10"
    then have "of_int (k + 1) \<le> r * 10" by simp
    then have "k + 1 \<le> randomResult r" by (rule randomResult_ge)
    with assms show False by simp
  qed
  ultimately show ?thesis by simp
qed


lemma roundHalfEven_of_int [simp]: "roundHalfEven (of_int m) = m"
  by (simp add: roundHalfEven_def)

lemma toNumber_exact: "\<bar>v\<bar> < 2 ^ 53 \<Longrightarrow> toNumber v = v"
proof -
  assume a: "\<bar>v\<bar> < 2 ^ 53"
  then have "nat \<bar>v\<bar> < 2 ^ 53" by (simp add: nat_less_iff)
  then have "shiftOf (nat \<bar>v\<bar>) = 0" by (simp add: shiftOf.simps)
  moreover have "roundHalfEven (of_int \<bar>v\<bar>) = \<bar>v\<bar>" by (rule roundHalfEven_of_int)
  ultimately show ?thesis by (simp add: toNumber_def mult_sgn_abs)
qed

lemma digitsOf_digits: "c \<in> set (digitsOf n) \<Longrightarrow> 48 \<le> c \<and> c \<le> 57"
proof (induction n arbitrary: c rule: digitsOf.induct)
  case (1 n)
  show ?case
  proof (cases "n < 10")
    case True
    with "1.prems" show ?thesis by (simp add: digitsOf.simps [of n])
  next
    case False
    with "1.prems" have "c \<in> set (digitsOf (n div 10)) \<or> c = 48 + n mod 10"
      by (auto simp add: digitsOf.simps [of n])
    then show ?thesis
    proof
      assume "c \<in> set (digitsOf (n div 10))"
      with "1.IH" [OF False] show ?thesis by blast
    next
      assume "c = 48 + n mod 10"
      moreover have "n mod 10 < 10" by simp
      ultimately show ?thesis by linarith
    qed
  qed
qed

lemma digitsOf_nonempty: "digitsOf n \<noteq> []"
  by (simp add: digitsOf.simps [of n])

lemma digitsValue_snoc:
  "digitsValue R (Z @ [c]) = digitsValue R Z * R + (case digitValue c of None \<Rightarrow> 0 | Some d \<Rightarrow> d)"
  by (simp add: digitsValue_def)

lemma digitValue_digit: "48 \<le> c \<Longrightarrow> c \<le> 57 \<Longrightarrow> digitValue c = Some (c - 48)"
  by (simp add: digitValue_def)

lemma digitsValue_digitsOf: "digitsValue 10 (digitsOf n) = n"
proof (induction n rule: digitsOf.induct)
  case (1 n)
  show ?case
  proof (cases "n < 10")
    case True
    then show ?thesis by (simp add: digitsOf.simps [of n] digitsValue_def digitValue_def)
  next
    case False
    have "digitValue (48 + n mod 10) = Some (n mod 10)"
      using digitValue_digit [of "48 + n mod 10"] by simp
    with False "1.IH" [OF False] show ?thesis
      by (simp add: digitsOf.simps [of n] digitsValue_snoc)
  qed
qed

lemma isRadixDigit_digit: "48 \<le> c \<Longrightarrow> c \<le> 57 \<Longrightarrow> isRadixDigit 10 c"
  by (simp add: isRadixDigit_def digitValue_def)

lemma not_isWhiteSpace_digit: "48 \<le> c \<Longrightarrow> c \<le> 57 \<Longrightarrow> \<not> isWhiteSpace c"
  by (auto simp: isWhiteSpace_def)

lemma parseInt_digits:
  assumes "rest = [] \<or> (\<not> isRadixDigit 10 (hd rest) \<and> hd rest \<noteq> 120 \<and> hd rest \<noteq> 88)"
  shows "dropWhile isWhiteSpace (digitsOf m @ rest) = digitsOf m @ rest"
    and "take 1 (digitsOf m @ rest) \<noteq> js ''-''"
    and "take 1 (digitsOf m @ rest) \<noteq> js ''+''"
    and "take 2 (digitsOf m @ rest) \<noteq> js ''0x''"
    and "take 2 (digitsOf m @ rest) \<noteq> js ''0X''"
    and "takeWhile (isRadixDigit 10) (digitsOf m @ rest) = digitsOf m"
proof -
  obtain d ds where ds: "digitsOf m = d # ds"
    using digitsOf_nonempty [of m] by (cases "digitsOf m") auto
  have dd: "48 \<le> d \<and> d \<le> 57" using digitsOf_digits [of d m] ds by simp
  show "dropWhile isWhiteSpace (digitsOf m @ rest) = digitsOf m @ rest"
    using dd not_isWhiteSpace_digit [of d] by (simp add: ds)
  show "take 1 (digitsOf m @ rest) \<noteq> js ''-''" using dd by (simp add: ds js_def)
  show "take 1 (digitsOf m @ rest) \<noteq> js ''+''" using dd by (simp add: ds js_def)
  have second: "c \<noteq> 120 \<and> c \<noteq> 88" if "take 2 (digitsOf m @ rest) = [a, c]" for a c
  proof (cases ds)
    case Nil
    with that ds assms show ?thesis by (cases rest) auto
  next
    case (Cons e es)
    then have "e \<in> set (digitsOf m)" by (simp add: ds)
    then have "48 \<le> e \<and> e \<le> 57" by (rule digitsOf_digits)
    moreover from that ds Cons have "c = e" by simp
    ultimately show ?thesis by simp
  qed
  show "take 2 (digitsOf m @ rest) \<noteq> js ''0x''" using second [of 48 120] by (auto simp: js_def)
  show "take 2 (digitsOf m @ rest) \<noteq> js ''0X''" using second [of 48 88] by (auto simp: js_def)
  have "\<forall>c \<in> set (digitsOf m). isRadixDigit 10 c"
    using digitsOf_digits isRadixDigit_digit by blast
  then have "takeWhile (isRadixDigit 10) (digitsOf m @ rest)
             = digitsOf m @ takeWhile (isRadixDigit 10) rest"
    by (simp add: takeWhile_append2)
  moreover have "takeWhile (isRadixDigit 10) rest = []"
    using assms by (cases rest) auto
  ultimately show "takeWhile (isRadixDigit 10) (digitsOf m @ rest) = digitsOf m" by simp
qed

lemma parseInt_decimal_prefix:
  assumes ws: "\<forall>c \<in> set ws. isWhiteSpace c"
    and rest: "rest = [] \<or> (\<not> isRadixDigit 10 (hd rest) \<and> hd rest \<noteq> 120 \<and> hd rest \<noteq> 88)"
    and n: "\<bar>n\<bar> < 2 ^ 53"
  shows "parseInt (ws @ decimalString n @ rest) = Some n"
proof -
  have skip: "dropWhile isWhiteSpace (ws @ xs) = dropWhile isWhiteSpace xs" for xs
    using ws by (simp add: dropWhile_append2)
  show ?thesis
  proof (cases "n < 0")
    case True
    let ?m = "nat (- n)"
    note d = parseInt_digits [OF rest, of ?m]
    have dec: "decimalString n = 45 # digitsOf ?m" using True by (simp add: decimalString_def)
    have "\<not> isWhiteSpace 45" by (simp add: isWhiteSpace_def)
    then have "dropWhile isWhiteSpace (ws @ decimalString n @ rest) = 45 # digitsOf ?m @ rest"
      by (simp add: skip dec)
    moreover have "toNumber (- int ?m) = - int ?m"
      using n True by (intro toNumber_exact) simp
    ultimately show ?thesis
      using d True
      by (simp add: parseInt_def Let_def js_def digitsOf_nonempty digitsValue_digitsOf)
  next
    case False
    let ?m = "nat n"
    note d = parseInt_digits [OF rest, of ?m]
    have dec: "decimalString n = digitsOf ?m" using False by (simp add: decimalString_def)
    have "dropWhile isWhiteSpace (ws @ decimalString n @ rest) = digitsOf ?m @ rest"
      using d(1) by (simp add: skip dec)
    moreover have "toNumber (int ?m) = int ?m"
      using n False by (intro toNumber_exact) simp
    ultimately show ?thesis
      using d False
      by (simp add: parseInt_def Let_def digitsOf_nonempty digitsValue_digitsOf)
  qed
qed

lemma parseInt_no_digit:
  assumes "\<forall>c \<in> set str. digitValue c = None"
  shows "parseInt str = None"
proof -
  have sub: "\<forall>c \<in> set xs. digitValue c = None \<Longrightarrow> takeWhile (isRadixDigit R) xs = []" for xs R
    by (cases xs) (auto simp: isRadixDigit_def)
  let ?S = "dropWhile isWhiteSpace str"
  have a: "\<forall>c \<in> set ?S. digitValue c = None" using assms set_dropWhileD by fastforce
  then have b: "\<forall>c \<in> set (drop k ?S). digitValue c = None" for k
    by (meson in_set_dropD)
  have "take 2 xs \<noteq> js ''0x'' \<and> take 2 xs \<noteq> js ''0X''" if "\<forall>c \<in> set xs. digitValue c = None" for xs
  proof -
    have "digitValue 48 \<noteq> None" by (simp add: digitValue_def)
    with that have "48 \<notin> set xs" by auto
    then have "48 \<notin> set (take 2 xs)" by (meson in_set_takeD)
    then show ?thesis by (auto simp: js_def)
  qed
  with a b [of 1] sub [of ?S 10] sub [of "drop 1 ?S" 10] show ?thesis
    by (simp add: parseInt_def Let_def)
qed

section \<open>Lemmas about the settlement loop\<close>

lemma smod_2_eq_0_iff: "(n::int) smod 2 = 0 \<longleftrightarrow> even n"
  by (auto simp: signed_modulo_int_def sgn_if)

lemma processBet_games [simp]: "games (processBet rn s d) = games s"
  by (simp add: processBet_def Let_def)

lemma processBet_flags [simp]:
  "gameCreationInProgress (processBet rn s d) = gameCreationInProgress s"
  "continuousGamesEnabled (processBet rn s d) = continuousGamesEnabled s"
  by (simp_all add: processBet_def Let_def)

lemma processBet_bets: "bets (processBet rn s d) = (bets s)[fst d := settled rn (snd d)]"
  by (simp add: processBet_def Let_def)

lemma processBets_games [simp]: "games (processBets rn ds s) = games s"
  by (induction ds arbitrary: s) simp_all

lemma processBets_flags [simp]:
  "gameCreationInProgress (processBets rn ds s) = gameCreationInProgress s"
  "continuousGamesEnabled (processBets rn ds s) = continuousGamesEnabled s"
  by (induction ds arbitrary: s) simp_all

lemma processBets_length [simp]: "length (bets (processBets rn ds s)) = length (bets s)"
  by (induction ds arbitrary: s) (simp_all add: processBet_bets)

lemma processBets_untouched:
  "j \<notin> fst ` set ds \<Longrightarrow> bets (processBets rn ds s) ! j = bets s ! j"
  by (induction ds arbitrary: s) (auto simp: processBet_bets)

lemma processBets_touched:
  "distinct (map fst ds) \<Longrightarrow> (j, b) \<in> set ds \<Longrightarrow> j < length (bets s) \<Longrightarrow>
   bets (processBets rn ds s) ! j = settled rn b"
proof (induction ds arbitrary: s)
  case Nil
  then show ?case by simp
next
  case (Cons d ds)
  show ?case
  proof (cases "d = (j, b)")
    case True
    with Cons.prems have "j \<notin> fst ` set ds" by auto
    then have "bets (processBets rn ds (processBet rn s d)) ! j = bets (processBet rn s d) ! j"
      by (rule processBets_untouched)
    with True Cons.prems show ?thesis by (simp add: processBet_bets)
  next
    case False
    with Cons.prems have "(j, b) \<in> set ds" "distinct (map fst ds)" by auto
    moreover have "j < length (bets (processBet rn s d))"
      using Cons.prems by (simp add: processBet_bets)
    ultimately show ?thesis using Cons.IH by simp
  qed
qed

lemma findPendingBets_distinct: "distinct (map fst (findPendingBets s gid))"
  by (simp add: findPendingBets_def distinct_map_filter)

lemma findPendingBets_iff:
  "(j, b) \<in> set (findPendingBets s gid) \<longleftrightarrow>
     j < length (bets s) \<and> bets s ! j = b \<and> gameId b = gid \<and> result b = Pending"
  by (auto simp: findPendingBets_def in_set_enumerate_eq)

lemma findPendingBets_games_upd [simp]:
  "findPendingBets (s\<lparr>games := gs\<rparr>) gid = findPendingBets s gid"
  by (simp add: findPendingBets_def)

lemma endGame_bets_pending:
  assumes "i < length (bets s)" "gameId (bets s ! i) = gid" "result (bets s ! i) = Pending"
  shows "bets (endGameAndProcessBets s (gid, g) r now) ! i
         = settled (resolveResultNumber g r) (bets s ! i)"
proof -
  let ?s1 = "s\<lparr>games := (games s)[gid := closedGame g r now]\<rparr>"
  have "(i, bets s ! i) \<in> set (findPendingBets ?s1 gid)"
    using assms by (simp add: findPendingBets_iff)
  moreover have "i < length (bets ?s1)" using assms by simp
  ultimately have "bets (processBets (resolveResultNumber g r) (findPendingBets ?s1 gid) ?s1) ! i
       = settled (resolveResultNumber g r) (bets s ! i)"
    using findPendingBets_distinct processBets_touched by blast
  then show ?thesis by (simp add: endGameAndProcessBets_def Let_def)
qed

lemma endGame_bets_other:
  assumes "\<not> (i < length (bets s) \<and> gameId (bets s ! i) = gid \<and> result (bets s ! i) = Pending)"
  shows "bets (endGameAndProcessBets s (gid, g) r now) ! i = bets s ! i"
proof -
  let ?s1 = "s\<lparr>games := (games s)[gid := closedGame g r now]\<rparr>"
  have "i \<notin> fst ` set (findPendingBets ?s1 gid)"
    using assms by (auto simp: findPendingBets_iff)
  then have "bets (processBets (resolveResultNumber g r) (findPendingBets ?s1 gid) ?s1) ! i
       = bets ?s1 ! i"
    by (rule processBets_untouched)
  then show ?thesis by (simp add: endGameAndProcessBets_def Let_def)
qed

lemma endGame_length_bets [simp]:
  "length (bets (endGameAndProcessBets s gd r now)) = length (bets s)"
  by (simp add: endGameAndProcessBets_def Let_def)

lemma endGame_games [simp]:
  "games (endGameAndProcessBets s gd r now) = (games s)[fst gd := closedGame (snd gd) r now]"
  by (simp add: endGameAndProcessBets_def Let_def)

lemma settled_fields [simp]:
  "gameId (settled rn b) = gameId b" "userId (settled rn b) = userId b"
  "amount (settled rn b) = amount b" "result (settled rn b) \<noteq> Pending"
  by (simp_all add: settled_def)

lemma endGame_no_pending_left: "findPendingBets (endGameAndProcessBets s (gid, g) r now) gid = []"
proof -
  let ?s' = "endGameAndProcessBets s (gid, g) r now"
  have "\<not> (gameId (bets ?s' ! j) = gid \<and> result (bets ?s' ! j) = Pending)"
    if "j < length (bets s)" for j
  proof (cases "gameId (bets s ! j) = gid \<and> result (bets s ! j) = Pending")
    case True
    with that show ?thesis by (simp add: endGame_bets_pending)
  next
    case False
    then show ?thesis by (simp add: endGame_bets_other)
  qed
  then have np: "j < length (bets ?s') \<Longrightarrow>
      \<not> (gameId (bets ?s' ! j) = gid \<and> result (bets ?s' ! j) = Pending)" for j
    by simp
  have none: "(j, b) \<notin> set (findPendingBets ?s' gid)" for j b
  proof
    assume "(j, b) \<in> set (findPendingBets ?s' gid)"
    then have "j < length (bets ?s')" and "bets ?s' ! j = b"
      and "gameId b = gid" and "result b = Pending"
      by (simp_all add: findPendingBets_iff)
    with np [of j] show False by blast
  qed
  show ?thesis
  proof (cases "findPendingBets ?s' gid")
    case Nil
    then show ?thesis .
  next
    case (Cons d ds)
    then have "(fst d, snd d) \<in> set (findPendingBets ?s' gid)" by simp
    with none show ?thesis by blast
  qed
qed

lemmas example_defs = exampleDb_def exampleGame_def closedExampleDb_def closedExampleGame_def
  numberBetsDb_def new_Game_def new_Bet_def js_def
lemmas parse_defs = parseInt_def isWhiteSpace_def isRadixDigit_def digitValue_def digitsValue_def
  js_def toNumber_def roundHalfEven_def shiftOf.simps
lemma randomResult_eval:
  "randomResult (7/20) = 3" "randomResult (3/4) = 7" "randomResult (3/8) = 3"
  by (simp_all add: randomResult_def fl64_def ulp64_def roundHalfEven_def binadeUlp.simps)

lemmas result_defs = resolveResultNumber_def randomResult_eval resultColorOf_def resultSizeOf_def
  signed_modulo_int_def
lemmas settle_defs = endGameAndProcessBets_def findPendingBets_def processBet_def settled_def isWin_def multiplier_def creditWallet_def winTransaction_def Let_def

lemma creditWallet_apply:
  "creditWallet u p ws u' = (if u' = u then map_option (\<lambda>bal. bal + p) (ws u) else ws u')"
  by (simp add: creditWallet_def split: option.splits)

lemma processBet_wallets:
  "wallets (processBet rn s d) u
   = map_option (\<lambda>bal. bal + winnings rn u [snd d]) (wallets s u)"
  by (cases "wallets s u")
     (auto simp add: processBet_def Let_def creditWallet_apply winnings_def settled_def)

lemma winnings_Cons: "winnings rn u (b # bs) = winnings rn u [b] + winnings rn u bs"
  by (simp add: winnings_def)

lemma processBets_wallets:
  "wallets (processBets rn ds s) u
   = map_option (\<lambda>bal. bal + winnings rn u (map snd ds)) (wallets s u)"
proof (induction ds arbitrary: s)
  case Nil
  then show ?case by (cases "wallets s u") (simp_all add: winnings_def)
next
  case (Cons d ds)
  have "wallets (processBets rn (d # ds) s) u
        = map_option (\<lambda>bal. bal + winnings rn u (map snd ds)) (wallets (processBet rn s d) u)"
    using Cons.IH by simp
  also have "\<dots> = map_option (\<lambda>bal. bal + winnings rn u (map snd (d # ds))) (wallets s u)"
    by (cases "wallets s u")
       (simp_all add: processBet_wallets winnings_Cons [of rn u "snd d" "map snd ds"])
  finally show ?case .
qed

lemma processBet_transactions:
  "transactions (processBet rn s d)
   = transactions s @ map (\<lambda>b. winTransaction (settled rn b)) (filter (isWin rn) [snd d])"
  by (simp add: processBet_def Let_def)

lemma processBets_transactions:
  "transactions (processBets rn ds s)
   = transactions s @ map (\<lambda>b. winTransaction (settled rn b)) (filter (isWin rn) (map snd ds))"
proof (induction ds arbitrary: s)
  case Nil
  then show ?case by simp
next
  case (Cons d ds)
  have "transactions (processBets rn (d # ds) s)
        = transactions (processBet rn s d)
          @ map (\<lambda>b. winTransaction (settled rn b)) (filter (isWin rn) (map snd ds))"
    using Cons.IH by simp
  then show ?case by (simp add: processBet_transactions)
qed

section \<open>Lemmas about round creation\<close>

lemma findActiveGame_flag_upd [simp]:
  "findActiveGame (s\<lparr>gameCreationInProgress := b\<rparr>) = findActiveGame s"
  by (simp add: findActiveGame_def findActiveGames_def)

lemma findActiveGame_games_cong:
  "games s' = games s \<Longrightarrow> findActiveGame s' = findActiveGame s"
  by (simp add: findActiveGame_def findActiveGames_def)

lemma findActiveGame_None_iff: "findActiveGame s = None \<longleftrightarrow> (\<forall>g \<in> set (games s). \<not> isActive g)"
proof -
  have "findActiveGames s = [] \<longleftrightarrow> (\<forall>g \<in> set (games s). \<not> isActive g)"
    unfolding findActiveGames_def filter_empty_conv
    by (metis in_set_enumerate_eq in_set_conv_nth add_0_right diff_zero le0 fst_conv snd_conv)
  then show ?thesis
    by (cases "findActiveGames s") (simp_all add: findActiveGame_def)
qed

lemma createNewGameSafelyN_active:
  assumes "findActiveGame s = Some d"
  shows "games (fst (createNewGameSafelyN m s now)) = games s"
    and "snd (createNewGameSafelyN m s now) = (if gameCreationInProgress s then None else Some d)"
  using assms by (simp_all add: createNewGameSafelyN_def Let_def)

lemma createAttempts_Nil: "createAttempts m [] s = s"
  by (simp add: createAttempts_def)

lemma createAttempts_Cons:
  "createAttempts m (t # ts) s = createAttempts m ts (fst (createNewGameSafelyN m s t))"
  by (simp add: createAttempts_def)

lemma createAttempts_active:
  "findActiveGame s = Some d \<Longrightarrow> games (createAttempts m ts s) = games s"
proof (induction ts arbitrary: s)
  case Nil
  then show ?case by (simp only: createAttempts_Nil)
next
  case (Cons t ts)
  let ?s1 = "fst (createNewGameSafelyN m s t)"
  have g1: "games ?s1 = games s" using Cons.prems by (rule createNewGameSafelyN_active)
  then have "findActiveGame ?s1 = findActiveGame s"
    by (rule findActiveGame_games_cong)
  then have "findActiveGame ?s1 = Some d" using Cons.prems by (rule trans)
  then have "games (createAttempts m ts ?s1) = games ?s1" by (rule Cons.IH)
  then have "games (createAttempts m (t # ts) s) = games ?s1"
    by (simp only: createAttempts_Cons)
  then show ?case using g1 by (rule trans)
qed

section \<open>Lemmas about the transitions\<close>

subsection \<open>What a creation attempt can do\<close>

lemma createLoop_cases:
  "createLoop m n t s a = (s', r) \<Longrightarrow>
     (s' = s \<and> r = None) \<or>
     (\<exists>k. s' = s\<lparr>games := games s @ [new_Game k Waiting (t + 5000)]\<rparr>
          \<and> r = Some (length (games s), new_Game k Waiting (t + 5000)))"
proof (induction m n t s a rule: createLoop.induct)
  case (1 maxAttempts nextNum now s attempts)
  show ?case
  proof (cases "attempts < maxAttempts")
    case False
    with "1.prems" show ?thesis by (simp add: createLoop.simps [of maxAttempts nextNum now s attempts])
  next
    case True
    let ?g = "new_Game (nextNum + int attempts) Waiting (now + 5000)"
    show ?thesis
    proof (cases "saveNewGame s ?g")
      case (Some s1)
      then have "s1 = s\<lparr>games := games s @ [?g]\<rparr>"
        by (simp add: saveNewGame_def split: if_splits)
      with Some True "1.prems" show ?thesis
        by (auto simp add: createLoop.simps [of maxAttempts nextNum now s attempts] Let_def)
    next
      case None
      show ?thesis
      proof (cases "Suc attempts \<ge> maxAttempts")
        case t: True
        with None True "1.prems" show ?thesis
          by (simp add: createLoop.simps [of maxAttempts nextNum now s attempts] Let_def)
      next
        case f: False
        with None True "1.prems"
        have "createLoop maxAttempts nextNum now s (Suc attempts) = (s', r)"
          by (simp add: createLoop.simps [of maxAttempts nextNum now s attempts] Let_def)
        with "1.IH" [OF True refl None f] show ?thesis by simp
      qed
    qed
  qed
qed


lemma findActiveGames_iff:
  "(k, g) \<in> set (findActiveGames s) \<longleftrightarrow> k < length (games s) \<and> games s ! k = g \<and> isActive g"
  by (auto simp: findActiveGames_def in_set_enumerate_eq)

lemma findActiveGame_Some:
  assumes "findActiveGame s = Some (k, g)"
  shows "k < length (games s) \<and> games s ! k = g \<and> isActive g"
proof (cases "findActiveGames s")
  case Nil
  with assms show ?thesis by (simp add: findActiveGame_def)
next
  case (Cons d ds)
  with assms have "(k, g) = last (findActiveGames s)" and "findActiveGames s \<noteq> []"
    by (simp_all add: findActiveGame_def)
  then have "(k, g) \<in> set (findActiveGames s)" by (metis last_in_set)
  then show ?thesis by (simp only: findActiveGames_iff)
qed

lemma createNewGameSafelyN_cases:
  assumes "createNewGameSafelyN m s now = (s', r)"
  shows "games s' = games s \<and> bets s' = bets s \<and>
           (r = None \<or> (\<exists>k g. r = Some (k, g) \<and> k < length (games s) \<and> games s ! k = g \<and> isActive g))
         \<or> (\<exists>n. games s' = games s @ [new_Game n Waiting (now + 5000)] \<and> bets s' = bets s
                \<and> r = Some (length (games s), new_Game n Waiting (now + 5000)))"
proof (cases "gameCreationInProgress s")
  case True
  with assms show ?thesis by (simp add: createNewGameSafelyN_def)
next
  case False
  show ?thesis
  proof (cases "findActiveGame s")
    case (Some d)
    obtain k g where d: "d = (k, g)" by (cases d)
    with Some have "k < length (games s) \<and> games s ! k = g \<and> isActive g"
      by (simp add: findActiveGame_Some)
    moreover from assms False Some have "games s' = games s" "bets s' = bets s" "r = Some d"
      by (auto simp: createNewGameSafelyN_def Let_def)
    ultimately show ?thesis using d by simp
  next
    case None
    let ?s1 = "s\<lparr>gameCreationInProgress := True\<rparr>"
    obtain s2 r2 where l: "createLoop m (nextGameNumber ?s1) now ?s1 0 = (s2, r2)"
      by (cases "createLoop m (nextGameNumber ?s1) now ?s1 0")
    from assms False None l have e: "s' = s2\<lparr>gameCreationInProgress := False\<rparr>" "r = r2"
      by (auto simp: createNewGameSafelyN_def Let_def)
    from createLoop_cases [OF l] e show ?thesis by auto
  qed
qed

subsection \<open>Later copy: a completed round and its bets are never touched again\<close>

lemma filter_eq_by_nth:
  assumes "length xs = length ys"
    and "\<And>i. i < length xs \<Longrightarrow> (P (xs ! i) \<or> P (ys ! i)) \<Longrightarrow> xs ! i = ys ! i"
  shows "filter P xs = filter P ys"
  using assms
proof (induction xs ys rule: list_induct2)
  case Nil
  then show ?case by simp
next
  case (Cons x xs y ys)
  have hd: "(P x \<or> P y) \<Longrightarrow> x = y" using Cons.prems [of 0] by simp
  have tl: "filter P xs = filter P ys"
  proof (rule Cons.IH)
    fix i assume "i < length xs" "P (xs ! i) \<or> P (ys ! i)"
    then show "xs ! i = ys ! i" using Cons.prems [of "Suc i"] by simp
  qed
  from hd tl show ?case by auto
qed

lemma endGame_other_round:
  assumes "gid' \<noteq> gid" and "gid < length (games s)"
  shows "roundUnchanged gid s (endGameAndProcessBets s (gid', g') r now)"
proof -
  let ?s' = "endGameAndProcessBets s (gid', g') r now"
  have "filter (\<lambda>b. gameId b = gid) (bets ?s') = filter (\<lambda>b. gameId b = gid) (bets s)"
  proof (rule filter_eq_by_nth)
    show "length (bets ?s') = length (bets s)" by simp
  next
    fix i assume i: "i < length (bets ?s')"
      and p: "gameId (bets ?s' ! i) = gid \<or> gameId (bets s ! i) = gid"
    show "bets ?s' ! i = bets s ! i"
    proof (cases "gameId (bets s ! i) = gid' \<and> result (bets s ! i) = Pending")
      case True
      with i have "bets ?s' ! i = settled (resolveResultNumber g' r) (bets s ! i)"
        by (simp add: endGame_bets_pending)
      with True p assms(1) show ?thesis by simp
    next
      case False
      then show ?thesis by (simp add: endGame_bets_other)
    qed
  qed
  with assms show ?thesis by (simp add: roundUnchanged_def)
qed

lemma roundUnchanged_refl: "gid < length (games s) \<Longrightarrow> roundUnchanged gid s s"
  by (simp add: roundUnchanged_def)

lemma roundUnchanged_trans:
  "roundUnchanged gid s s1 \<Longrightarrow> roundUnchanged gid s1 s2 \<Longrightarrow> roundUnchanged gid s s2"
  by (simp add: roundUnchanged_def)

lemma roundUnchanged_games_upd:
  "gid < length (games s) \<Longrightarrow> k \<noteq> gid \<Longrightarrow> roundUnchanged gid s (s\<lparr>games := (games s)[k := g]\<rparr>)"
  by (simp add: roundUnchanged_def)

lemma roundUnchanged_flags:
  "roundUnchanged gid s s' \<Longrightarrow> roundUnchanged gid s (s'\<lparr>gameCreationInProgress := b\<rparr>)"
  "roundUnchanged gid s s' \<Longrightarrow> roundUnchanged gid s (s'\<lparr>continuousGamesEnabled := b\<rparr>)"
  by (simp_all add: roundUnchanged_def)

lemma create_roundUnchanged:
  assumes "gid < length (games s)"
  shows "roundUnchanged gid s (fst (createNewGameSafelyN m s now))"
proof -
  obtain s' r where c: "createNewGameSafelyN m s now = (s', r)"
    by (cases "createNewGameSafelyN m s now")
  from createNewGameSafelyN_cases [OF c] assms have "roundUnchanged gid s s'"
    by (auto simp: roundUnchanged_def nth_append)
  with c show ?thesis by simp
qed

lemma postBet_roundUnchanged:
  assumes "gid < length (games s)" and "status (games s ! gid) = Completed"
  shows "roundUnchanged gid s (fst (postBet s u gid' ty v amt))"
  using assms
  by (auto simp: postBet_def roundUnchanged_def findGameById_def new_Bet_def Let_def
      split: option.splits if_splits)


lemma putEnd_v2_roundUnchanged:
  assumes "gid < length (games s)" and "status (games s ! gid) = Completed"
  shows "roundUnchanged gid s (fst (putEnd_v2 s gid' r now))"
proof (cases "gid' < length (games s) \<and> status (games s ! gid') \<noteq> Completed")
  case True
  with assms have "gid' \<noteq> gid" by auto
  then have "roundUnchanged gid s (endGameAndProcessBets s (gid', games s ! gid') r now)"
    using assms(1) by (rule endGame_other_round)
  with True show ?thesis by (simp add: putEnd_v2_def findGameById_def)
next
  case False
  with assms(1) show ?thesis
    by (auto simp: putEnd_v2_def findGameById_def roundUnchanged_refl)
qed

lemma putFix_v2_roundUnchanged:
  assumes "gid < length (games s)" and "status (games s ! gid) = Completed"
  shows "roundUnchanged gid s (fst (putFix_v2 s gid' v))"
proof (cases "gid' < length (games s) \<and> status (games s ! gid') \<noteq> Completed")
  case True
  with assms have "gid' \<noteq> gid" by auto
  with assms(1) True show ?thesis
    by (simp add: putFix_v2_def findGameById_def Let_def roundUnchanged_games_upd)
next
  case False
  with assms(1) show ?thesis
    by (auto simp: putFix_v2_def findGameById_def roundUnchanged_refl)
qed

lemma checkTransitions_roundUnchanged:
  assumes "gid < length (games s)" and "gid' \<noteq> gid"
  shows "roundUnchanged gid s (checkTransitions s (gid', g') now gameDuration r)"
proof -
  let ?opens = "status g' = Waiting \<and> now \<ge> startTime g'"
  let ?g1 = "if ?opens then g'\<lparr>status := Betting\<rparr> else g'"
  let ?s1 = "if ?opens then s\<lparr>games := (games s)[gid' := ?g1]\<rparr> else s"
  have s1: "roundUnchanged gid s ?s1"
    using assms by (simp add: roundUnchanged_games_upd roundUnchanged_refl)
  have "gid < length (games ?s1)" using assms(1) by simp
  with assms(2) have "roundUnchanged gid ?s1 (endGameAndProcessBets ?s1 (gid', ?g1) r now)"
    by (rule endGame_other_round)
  with s1 have "roundUnchanged gid s (endGameAndProcessBets ?s1 (gid', ?g1) r now)"
    by (rule roundUnchanged_trans)
  with s1 show ?thesis
    by (simp add: checkTransitions_def Let_def)
qed

lemma monitorTick_v2_roundUnchanged:
  assumes "gid < length (games s)" and "status (games s ! gid) = Completed"
  shows "roundUnchanged gid s (monitorTick_v2 s now gameDuration r)"
proof (cases "findActiveGame s")
  case None
  with assms(1) show ?thesis
    by (simp add: monitorTick_v2_def createNewGameSafely_v2_def create_roundUnchanged
        roundUnchanged_refl)
next
  case (Some d)
  obtain k g where d: "d = (k, g)" by (cases d)
  with Some have "k < length (games s) \<and> games s ! k = g \<and> isActive g"
    by (simp add: findActiveGame_Some)
  with assms(2) have "k \<noteq> gid" by (auto simp: isActive_def)
  with assms(1) have "roundUnchanged gid s (checkTransitions s (k, g) now gameDuration r)"
    by (rule checkTransitions_roundUnchanged)
  with Some d assms(1) show ?thesis
    by (simp add: monitorTick_v2_def roundUnchanged_refl)
qed

lemma completeActiveGames_length [simp]: "length (completeActiveGames now gs) = length gs"
  by (simp add: completeActiveGames_def)

lemma completeActiveGames_nth:
  "k < length gs \<Longrightarrow> completeActiveGames now gs ! k
     = (if isActive (gs ! k) then (gs ! k)\<lparr>status := Completed, endTime := Some now\<rparr> else gs ! k)"
  by (simp add: completeActiveGames_def)

lemma postStartContinuous_v2_roundUnchanged:
  assumes "gid < length (games s)" and "status (games s ! gid) = Completed"
  shows "roundUnchanged gid s (fst (postStartContinuous_v2 s now))"
proof -
  let ?s2 = "s\<lparr>continuousGamesEnabled := True,
               games := completeActiveGames now (games s)\<rparr>"
  have a: "roundUnchanged gid s ?s2"
    using assms by (simp add: roundUnchanged_def completeActiveGames_nth isActive_def)
  have "gid < length (games ?s2)" using assms(1) by simp
  then have "roundUnchanged gid ?s2 (fst (createNewGameSafelyN 5 ?s2 now))"
    by (rule create_roundUnchanged)
  with a have "roundUnchanged gid s (fst (createNewGameSafelyN 5 ?s2 now))"
    by (rule roundUnchanged_trans)
  then show ?thesis
    by (simp add: postStartContinuous_v2_def createNewGameSafely_v2_def Let_def
        split: option.splits)
qed

lemma endGames_roundUnchanged:
  "gid < length (games s) \<Longrightarrow> gid \<notin> fst ` set ds \<Longrightarrow>
   roundUnchanged gid s (endGames ds rs now s)"
proof (induction ds arbitrary: s rs)
  case Nil
  then show ?case by (simp add: roundUnchanged_refl)
next
  case (Cons d ds)
  let ?s1 = "endGameAndProcessBets s d (rs 0) now"
  from Cons.prems have "fst d \<noteq> gid" by auto
  then have "roundUnchanged gid s (endGameAndProcessBets s (fst d, snd d) (rs 0) now)"
    using Cons.prems(1) by (rule endGame_other_round)
  then have a: "roundUnchanged gid s ?s1" by simp
  then have "gid < length (games ?s1)" by (simp add: roundUnchanged_def)
  moreover from Cons.prems have "gid \<notin> fst ` set ds" by auto
  ultimately have "roundUnchanged gid ?s1 (endGames ds (\<lambda>k. rs (Suc k)) now ?s1)"
    by (rule Cons.IH)
  with a show ?case by (simp add: roundUnchanged_trans)
qed

lemma postStopContinuous_roundUnchanged:
  assumes "gid < length (games s)" and "status (games s ! gid) = Completed"
  shows "roundUnchanged gid s (postStopContinuous s rs now)"
proof -
  let ?s1 = "s\<lparr>continuousGamesEnabled := False\<rparr>"
  have "gid \<notin> fst ` set (findActiveGames ?s1)"
    using assms by (auto simp: findActiveGames_iff isActive_def)
  moreover have "gid < length (games ?s1)" using assms(1) by simp
  ultimately have "roundUnchanged gid ?s1 (endGames (findActiveGames ?s1) rs now ?s1)"
    by (rule endGames_roundUnchanged [rotated])
  then show ?thesis by (simp add: postStopContinuous_def roundUnchanged_def Let_def)
qed

lemma step_v2_roundUnchanged:
  assumes "step_v2 s s'" and "gid < length (games s)" and "status (games s ! gid) = Completed"
  shows "roundUnchanged gid s s'"
  using assms
proof (cases rule: step_v2.cases)
  case (step_v2_tick now gameDuration r)
  with assms show ?thesis by (simp add: monitorTick_v2_roundUnchanged)
next
  case (step_v2_create now)
  with assms show ?thesis by (simp add: createNewGameSafely_v2_def create_roundUnchanged)
next
  case (step_v2_bet u gid ty v amt)
  with assms show ?thesis by (simp add: postBet_roundUnchanged)
next
  case (step_v2_end gid r now)
  with assms show ?thesis by (simp add: putEnd_v2_roundUnchanged)
next
  case (step_v2_fix gid v)
  with assms show ?thesis by (simp add: putFix_v2_roundUnchanged)
next
  case (step_v2_start now)
  with assms show ?thesis by (simp add: postStartContinuous_v2_roundUnchanged)
next
  case (step_v2_stop rs now)
  with assms show ?thesis by (simp add: postStopContinuous_roundUnchanged)
qed

lemma closed_round_never_changes_v2:
  assumes "step_v2\<^sup>*\<^sup>* s s'" and "gid < length (games s)"
    and "status (games s ! gid) = Completed"
  shows "roundUnchanged gid s s'"
  using assms
proof (induction rule: rtranclp_induct)
  case base
  then show ?case by (simp add: roundUnchanged_refl)
next
  case (step s1 s2)
  then have a: "roundUnchanged gid s s1" by simp
  then have "gid < length (games s1)" and "status (games s1 ! gid) = Completed"
    using step.prems by (simp_all add: roundUnchanged_def)
  with step.hyps(2) have "roundUnchanged gid s1 s2" by (rule step_v2_roundUnchanged)
  with a show ?case by (rule roundUnchanged_trans)
qed

subsection \<open>Both copies: an outcome is only ever stored on a completed round\<close>

lemma list_all_update:
  "list_all P xs \<Longrightarrow> P x \<Longrightarrow> list_all P (xs[i := x])"
  using set_update_subset_insert [of xs i x] by (auto simp: list_all_iff)

lemma outcomeOnly_games_cong:
  "games s' = games s \<Longrightarrow> outcomeOnlyWhenClosed s' = outcomeOnlyWhenClosed s"
  by (simp add: outcomeOnlyWhenClosed_def)

lemma outcomeOnly_games_upd:
  "outcomeOnlyWhenClosed s \<Longrightarrow> isActive g \<longrightarrow> outcomeUnset g \<Longrightarrow>
   outcomeOnlyWhenClosed (s\<lparr>games := (games s)[k := g]\<rparr>)"
  by (simp add: outcomeOnlyWhenClosed_def list_all_update)

lemma outcomeOnly_nth:
  "outcomeOnlyWhenClosed s \<Longrightarrow> k < length (games s) \<Longrightarrow> isActive (games s ! k) \<Longrightarrow>
   outcomeUnset (games s ! k)"
  by (simp add: outcomeOnlyWhenClosed_def list_all_length)

lemma closedGame_not_active [simp]: "\<not> isActive (closedGame g r now)"
  by (simp add: closedGame_def isActive_def Let_def)

lemma endGame_outcomeOnly:
  "outcomeOnlyWhenClosed s \<Longrightarrow> outcomeOnlyWhenClosed (endGameAndProcessBets s d r now)"
  by (simp add: outcomeOnlyWhenClosed_def list_all_update)

lemma checkTransitions_outcomeOnly:
  assumes "outcomeOnlyWhenClosed s" and "isActive g \<Longrightarrow> outcomeUnset g"
  shows "outcomeOnlyWhenClosed (checkTransitions s (k, g) now gameDuration r)"
proof (cases "status g = Waiting \<and> now \<ge> startTime g")
  case True
  let ?g1 = "g\<lparr>status := Betting\<rparr>"
  let ?s1 = "s\<lparr>games := (games s)[k := ?g1]\<rparr>"
  have "isActive ?g1 \<longrightarrow> outcomeUnset ?g1"
    using assms(2) True by (simp add: isActive_def outcomeUnset_def)
  with assms(1) have s1: "outcomeOnlyWhenClosed ?s1"
    by (rule outcomeOnly_games_upd)
  then have "outcomeOnlyWhenClosed (endGameAndProcessBets ?s1 (k, ?g1) r now)"
    by (rule endGame_outcomeOnly)
  with s1 True show ?thesis by (simp add: checkTransitions_def Let_def)
next
  case False
  have "outcomeOnlyWhenClosed (endGameAndProcessBets s (k, g) r now)"
    using assms(1) by (rule endGame_outcomeOnly)
  with assms(1) False show ?thesis by (auto simp add: checkTransitions_def Let_def)
qed

lemma new_Game_outcomeUnset [simp]: "outcomeUnset (new_Game n st t)"
  by (simp add: outcomeUnset_def new_Game_def)

lemma create_outcomeOnly:
  assumes "outcomeOnlyWhenClosed s"
  shows "outcomeOnlyWhenClosed (fst (createNewGameSafelyN m s now))"
    and "snd (createNewGameSafelyN m s now) = Some (k, g) \<Longrightarrow> outcomeUnset g"
proof -
  obtain s' r where c: "createNewGameSafelyN m s now = (s', r)"
    by (cases "createNewGameSafelyN m s now")
  from createNewGameSafelyN_cases [OF c] assms have "outcomeOnlyWhenClosed s'"
    by (auto simp: outcomeOnlyWhenClosed_def)
  with c show "outcomeOnlyWhenClosed (fst (createNewGameSafelyN m s now))" by simp
  show "outcomeUnset g" if "snd (createNewGameSafelyN m s now) = Some (k, g)"
    using createNewGameSafelyN_cases [OF c] that c assms
    by (auto simp: outcomeOnly_nth)
qed

lemma completeActiveGames_outcomeOnly:
  "outcomeOnlyWhenClosed (s\<lparr>games := completeActiveGames now (games s)\<rparr>)"
  unfolding outcomeOnlyWhenClosed_def completeActiveGames_def list_all_iff
  by (auto simp: isActive_def)

lemma endGames_outcomeOnly:
  "outcomeOnlyWhenClosed s \<Longrightarrow> outcomeOnlyWhenClosed (endGames ds rs now s)"
  by (induction ds arbitrary: s rs) (simp_all add: endGame_outcomeOnly)

lemma active_doc_outcomeUnset:
  "outcomeOnlyWhenClosed s \<Longrightarrow> findActiveGame s = Some (k, g) \<Longrightarrow> outcomeUnset g"
  using findActiveGame_Some [of s k g] outcomeOnly_nth [of s k] by auto

lemma getCurrent_outcomeOnly:
  assumes "outcomeOnlyWhenClosed s"
  shows "outcomeOnlyWhenClosed (getCurrent s now gameDuration r)"
proof (cases "findActiveGame s")
  case None
  with assms show ?thesis
    by (simp add: getCurrent_def createNewGameSafely_def create_outcomeOnly(1))
next
  case (Some d)
  obtain k g where d: "d = (k, g)" by (cases d)
  with Some assms have "outcomeUnset g" by (simp add: active_doc_outcomeUnset)
  with assms have "outcomeOnlyWhenClosed (checkTransitions s (k, g) now gameDuration r)"
    by (simp add: checkTransitions_outcomeOnly)
  with Some d show ?thesis by (simp add: getCurrent_def)
qed

lemma monitorTick_v2_outcomeOnly:
  assumes "outcomeOnlyWhenClosed s"
  shows "outcomeOnlyWhenClosed (monitorTick_v2 s now gameDuration r)"
proof (cases "findActiveGame s")
  case None
  with assms show ?thesis
    by (simp add: monitorTick_v2_def createNewGameSafely_v2_def create_outcomeOnly(1))
next
  case (Some d)
  obtain k g where d: "d = (k, g)" by (cases d)
  with Some assms have "outcomeUnset g" by (simp add: active_doc_outcomeUnset)
  with assms have "outcomeOnlyWhenClosed (checkTransitions s (k, g) now gameDuration r)"
    by (simp add: checkTransitions_outcomeOnly)
  with Some d assms show ?thesis by (simp add: monitorTick_v2_def)
qed

lemma postBet_games [simp]: "games (fst (postBet s u gid ty v amt)) = games s"
  by (simp add: postBet_def Let_def split: option.splits)

lemma putEnd_outcomeOnly:
  "outcomeOnlyWhenClosed s \<Longrightarrow> outcomeOnlyWhenClosed (fst (putEnd s gid r now))"
  by (simp add: putEnd_def endGame_outcomeOnly split: option.splits)

lemma putEnd_v2_outcomeOnly:
  "outcomeOnlyWhenClosed s \<Longrightarrow> outcomeOnlyWhenClosed (fst (putEnd_v2 s gid r now))"
  by (simp add: putEnd_v2_def endGame_outcomeOnly split: option.splits)

lemma putFix_v2_outcomeOnly:
  assumes "outcomeOnlyWhenClosed s"
  shows "outcomeOnlyWhenClosed (fst (putFix_v2 s gid v))"
proof (cases "gid < length (games s) \<and> status (games s ! gid) \<noteq> Completed")
  case True
  let ?g' = "(games s ! gid)\<lparr>isFixed := True, fixedResult := v\<rparr>"
  have "isActive ?g' \<longrightarrow> outcomeUnset ?g'"
    using outcomeOnly_nth [OF assms, of gid] True by (simp add: isActive_def outcomeUnset_def)
  with assms have "outcomeOnlyWhenClosed (s\<lparr>games := (games s)[gid := ?g']\<rparr>)"
    by (rule outcomeOnly_games_upd)
  with True show ?thesis by (simp add: putFix_v2_def findGameById_def Let_def)
next
  case False
  with assms show ?thesis by (auto simp: putFix_v2_def findGameById_def)
qed

lemma postStartContinuous_v2_outcomeOnly:
  "outcomeOnlyWhenClosed (fst (postStartContinuous_v2 s now))"
proof -
  let ?s2 = "s\<lparr>continuousGamesEnabled := True, games := completeActiveGames now (games s)\<rparr>"
  have "outcomeOnlyWhenClosed ?s2"
    using completeActiveGames_outcomeOnly [of now "s\<lparr>continuousGamesEnabled := True\<rparr>"] by simp
  then have "outcomeOnlyWhenClosed (fst (createNewGameSafelyN 5 ?s2 now))"
    by (rule create_outcomeOnly(1))
  then show ?thesis
    by (simp add: postStartContinuous_v2_def createNewGameSafely_v2_def Let_def
        split: option.splits)
qed

lemma postStartContinuous_outcomeOnly:
  "outcomeOnlyWhenClosed (fst (postStartContinuous s now))"
proof -
  let ?s2 = "s\<lparr>continuousGamesEnabled := True, games := completeActiveGames now (games s)\<rparr>"
  let ?res = "createNewGameSafelyN 3 ?s2 now"
  have s2: "outcomeOnlyWhenClosed ?s2"
    using completeActiveGames_outcomeOnly [of now "s\<lparr>continuousGamesEnabled := True\<rparr>"] by simp
  then have a: "outcomeOnlyWhenClosed (fst ?res)" by (rule create_outcomeOnly(1))
  show ?thesis
  proof (cases "snd ?res")
    case None
    with a show ?thesis
      by (simp add: postStartContinuous_def createNewGameSafely_def Let_def)
  next
    case (Some d)
    obtain k g where d: "d = (k, g)" by (cases d)
    with Some s2 have "outcomeUnset g" by (simp add: create_outcomeOnly(2))
    then have "outcomeUnset (g\<lparr>status := Betting, startTime := now\<rparr>)"
      by (simp add: outcomeUnset_def)
    then have "isActive (g\<lparr>status := Betting, startTime := now\<rparr>)
        \<longrightarrow> outcomeUnset (g\<lparr>status := Betting, startTime := now\<rparr>)" by simp
    with a have "outcomeOnlyWhenClosed
        ((fst ?res)\<lparr>games := (games (fst ?res))[k := g\<lparr>status := Betting, startTime := now\<rparr>]\<rparr>)"
      by (rule outcomeOnly_games_upd)
    with Some d show ?thesis
      by (simp add: postStartContinuous_def createNewGameSafely_def Let_def)
  qed
qed

lemma postStopContinuous_outcomeOnly:
  "outcomeOnlyWhenClosed s \<Longrightarrow> outcomeOnlyWhenClosed (postStopContinuous s rs now)"
proof -
  assume "outcomeOnlyWhenClosed s"
  then have "outcomeOnlyWhenClosed (s\<lparr>continuousGamesEnabled := False\<rparr>)"
    by (simp add: outcomeOnlyWhenClosed_def)
  then show ?thesis by (simp add: postStopContinuous_def Let_def endGames_outcomeOnly)
qed

lemma postBet_outcomeOnly:
  "outcomeOnlyWhenClosed s \<Longrightarrow> outcomeOnlyWhenClosed (fst (postBet s u gid ty v amt))"
  by (simp add: outcomeOnly_games_cong [OF postBet_games])

lemma step_outcomeOnly:
  assumes "step s s'" and "outcomeOnlyWhenClosed s"
  shows "outcomeOnlyWhenClosed s'"
  using assms(1)
proof (cases rule: step.cases)
  case (step_current now gameDuration r)
  with assms(2) show ?thesis by (simp only: getCurrent_outcomeOnly)
next
  case (step_create now)
  with assms(2) show ?thesis by (simp only: createNewGameSafely_def create_outcomeOnly(1))
next
  case (step_bet u gid ty v amt)
  with assms(2) show ?thesis by (simp only: postBet_outcomeOnly)
next
  case (step_end gid r now)
  with assms(2) show ?thesis by (simp only: putEnd_outcomeOnly)
next
  case (step_start now)
  then show ?thesis by (simp only: postStartContinuous_outcomeOnly)
next
  case (step_stop rs now)
  with assms(2) show ?thesis by (simp only: postStopContinuous_outcomeOnly)
qed

lemma step_v2_outcomeOnly:
  assumes "step_v2 s s'" and "outcomeOnlyWhenClosed s"
  shows "outcomeOnlyWhenClosed s'"
  using assms(1)
proof (cases rule: step_v2.cases)
  case (step_v2_tick now gameDuration r)
  with assms(2) show ?thesis by (simp only: monitorTick_v2_outcomeOnly)
next
  case (step_v2_create now)
  with assms(2) show ?thesis by (simp only: createNewGameSafely_v2_def create_outcomeOnly(1))
next
  case (step_v2_bet u gid ty v amt)
  with assms(2) show ?thesis by (simp only: postBet_outcomeOnly)
next
  case (step_v2_end gid r now)
  with assms(2) show ?thesis by (simp only: putEnd_v2_outcomeOnly)
next
  case (step_v2_fix gid v)
  with assms(2) show ?thesis by (simp only: putFix_v2_outcomeOnly)
next
  case (step_v2_start now)
  then show ?thesis by (simp only: postStartContinuous_v2_outcomeOnly)
next
  case (step_v2_stop rs now)
  with assms(2) show ?thesis by (simp only: postStopContinuous_outcomeOnly)
qed

lemma outcome_only_when_closed:
  "step\<^sup>*\<^sup>* s s' \<Longrightarrow> outcomeOnlyWhenClosed s \<Longrightarrow> outcomeOnlyWhenClosed s'"
  by (induction rule: rtranclp_induct) (simp_all add: step_outcomeOnly)

lemma outcome_only_when_closed_v2:
  "step_v2\<^sup>*\<^sup>* s s' \<Longrightarrow> outcomeOnlyWhenClosed s \<Longrightarrow> outcomeOnlyWhenClosed s'"
  by (induction rule: rtranclp_induct) (simp_all add: step_v2_outcomeOnly)

subsection \<open>What starting and stopping continuous mode do to an active round\<close>

lemma completeActiveGames_no_active:
  "k < length gs \<Longrightarrow> \<not> isActive (completeActiveGames now gs ! k)"
  by (simp add: completeActiveGames_nth isActive_def)

lemma startContinuous_create_cases:
  assumes "createNewGameSafelyN m (s\<lparr>continuousGamesEnabled := True,
              games := completeActiveGames now (games s)\<rparr>) now = (s', r)"
  shows "bets s' = bets s \<and> wallets s' = wallets s
    \<and> (games s' = completeActiveGames now (games s) \<and> r = None
        \<or> (\<exists>n. games s' = completeActiveGames now (games s) @ [new_Game n Waiting (now + 5000)]
               \<and> r = Some (length (games s), new_Game n Waiting (now + 5000))))"
proof -
  let ?s2 = "s\<lparr>continuousGamesEnabled := True, games := completeActiveGames now (games s)\<rparr>"
  have na: "\<not> (k < length (games ?s2) \<and> games ?s2 ! k = g \<and> isActive g)" for k g
    using completeActiveGames_no_active [of k "games s" now] by auto
  have w: "wallets s' = wallets s"
  proof (cases "gameCreationInProgress s")
    case True
    with assms show ?thesis by (auto simp: createNewGameSafelyN_def)
  next
    case False
    let ?s3 = "?s2\<lparr>gameCreationInProgress := True\<rparr>"
    obtain s4 r4 where l: "createLoop m (nextGameNumber ?s3) now ?s3 0 = (s4, r4)"
      by (cases "createLoop m (nextGameNumber ?s3) now ?s3 0")
    from createLoop_cases [OF l] have "wallets s4 = wallets s" by auto
    with assms False l show ?thesis
      by (auto simp: createNewGameSafelyN_def Let_def split: option.splits)
  qed
  from createNewGameSafelyN_cases [OF assms] na w show ?thesis by auto
qed

lemma postStartContinuous_v2_effect:
  assumes "k < length (games s)" and "isActive (games s ! k)"
  shows "bets (fst (postStartContinuous_v2 s now)) = bets s
    \<and> wallets (fst (postStartContinuous_v2 s now)) = wallets s
    \<and> games (fst (postStartContinuous_v2 s now)) ! k
        = (games s ! k)\<lparr>status := Completed, endTime := Some now\<rparr>"
proof -
  let ?s2 = "s\<lparr>continuousGamesEnabled := True, games := completeActiveGames now (games s)\<rparr>"
  obtain s' r where c: "createNewGameSafelyN 5 ?s2 now = (s', r)"
    by (cases "createNewGameSafelyN 5 ?s2 now")
  have e: "fst (postStartContinuous_v2 s now) = s'"
    using c by (simp add: postStartContinuous_v2_def createNewGameSafely_v2_def Let_def
        split: option.splits)
  from startContinuous_create_cases [OF c] assms show ?thesis
    unfolding e by (auto simp: nth_append completeActiveGames_nth)
qed

lemma postStartContinuous_effect:
  assumes "k < length (games s)" and "isActive (games s ! k)"
  shows "bets (fst (postStartContinuous s now)) = bets s
    \<and> wallets (fst (postStartContinuous s now)) = wallets s
    \<and> games (fst (postStartContinuous s now)) ! k
        = (games s ! k)\<lparr>status := Completed, endTime := Some now\<rparr>"
proof -
  let ?s2 = "s\<lparr>continuousGamesEnabled := True, games := completeActiveGames now (games s)\<rparr>"
  obtain s' r where c: "createNewGameSafelyN 3 ?s2 now = (s', r)"
    by (cases "createNewGameSafelyN 3 ?s2 now")
  from startContinuous_create_cases [OF c] assms c show ?thesis
    by (auto simp: postStartContinuous_def createNewGameSafely_def Let_def nth_append
        completeActiveGames_nth)
qed

lemma roundUnchanged_no_pending:
  assumes "roundUnchanged gid s s'" and "findPendingBets s gid = []"
  shows "findPendingBets s' gid = []"
proof -
  have eq: "findPendingBets t gid = [] \<longleftrightarrow>
      filter (\<lambda>b. result b = Pending) (filter (\<lambda>b. gameId b = gid) (bets t)) = []" for t
  proof -
    have "findPendingBets t gid = [] \<longleftrightarrow>
        (\<forall>b \<in> set (bets t). \<not> (gameId b = gid \<and> result b = Pending))"
      unfolding findPendingBets_def filter_empty_conv
      by (metis in_set_enumerate_eq in_set_conv_nth add_0_right diff_zero le0 fst_conv snd_conv)
    then show ?thesis by (auto simp: filter_empty_conv)
  qed
  from assms show ?thesis by (simp add: eq roundUnchanged_def)
qed

lemma endGames_settles:
  "distinct (map fst ds) \<Longrightarrow> (k, g) \<in> set ds \<Longrightarrow> k < length (games s) \<Longrightarrow>
   (\<exists>r. games (endGames ds rs now s) ! k = closedGame g r now)
   \<and> findPendingBets (endGames ds rs now s) k = []"
proof (induction ds arbitrary: s rs)
  case Nil
  then show ?case by simp
next
  case (Cons d ds)
  let ?s1 = "endGameAndProcessBets s d (rs 0) now"
  have len: "k < length (games ?s1)" using Cons.prems(3) by simp
  show ?case
  proof (cases "d = (k, g)")
    case True
    with Cons.prems have "k \<notin> fst ` set ds" by auto
    with len have u: "roundUnchanged k ?s1 (endGames ds (\<lambda>j. rs (Suc j)) now ?s1)"
      by (rule endGames_roundUnchanged)
    have "findPendingBets ?s1 k = []"
      using True by (simp add: endGame_no_pending_left)
    with u have "findPendingBets (endGames ds (\<lambda>j. rs (Suc j)) now ?s1) k = []"
      by (rule roundUnchanged_no_pending)
    moreover have "games (endGames ds (\<lambda>j. rs (Suc j)) now ?s1) ! k = closedGame g (rs 0) now"
      using u True Cons.prems(3) by (simp add: roundUnchanged_def)
    ultimately show ?thesis by auto
  next
    case False
    with Cons.prems have "distinct (map fst ds)" "(k, g) \<in> set ds" by auto
    from Cons.IH [OF this len] show ?thesis by simp
  qed
qed

lemma findActiveGames_distinct: "distinct (map fst (findActiveGames s))"
  by (simp add: findActiveGames_def distinct_map_filter)

lemma postStopContinuous_effect:
  assumes "k < length (games s)" and "isActive (games s ! k)"
  shows "(\<exists>r. games (postStopContinuous s rs now) ! k = closedGame (games s ! k) r now)
    \<and> findPendingBets (postStopContinuous s rs now) k = []"
proof -
  let ?s1 = "s\<lparr>continuousGamesEnabled := False\<rparr>"
  have m: "(k, games s ! k) \<in> set (findActiveGames ?s1)"
    using assms by (simp add: findActiveGames_iff)
  have l: "k < length (games ?s1)" using assms(1) by simp
  from endGames_settles [OF findActiveGames_distinct m l, of rs now]
  show ?thesis by (simp add: postStopContinuous_def Let_def)
qed

section \<open>Settlement\<close>

text \<open>
  Claim C1 as stated says that the payout is the stake times the multiplier if and
  only if the selector matches the outcome, where a number selector matches when it
  equals the outcome value exactly. The code compares \<^verbatim>\<open>parseInt\<close> of the selector
  with the outcome: on outcome 3 the selectors \<^verbatim>\<open>3abc\<close> and no-break space plus
  \<^verbatim>\<open>3\<close>, neither of them the numeral of 3, win nine times the stake. And a bet on
  \<^verbatim>\<open>4\<close> with stake 0 loses with payout 0, which is its stake times 9.
\<close>

theorem exact_selector_rule_counterexample:
  "betValue (bets numberBetsDb ! 0) \<noteq> decimalString 3
   \<and> result (bets (endGameAndProcessBets numberBetsDb (0, exampleGame) (3/8) 1000) ! 0) = Win
   \<and> payout (bets (endGameAndProcessBets numberBetsDb (0, exampleGame) (3/8) 1000) ! 0) = 10 * 9
   \<and> betValue (bets numberBetsDb ! 1) \<noteq> decimalString 3
   \<and> result (bets (endGameAndProcessBets numberBetsDb (0, exampleGame) (3/8) 1000) ! 1) = Win
   \<and> payout (bets (endGameAndProcessBets numberBetsDb (0, exampleGame) (3/8) 1000) ! 1) = 5 * 9
   \<and> betValue (bets numberBetsDb ! 2) \<noteq> decimalString 3
   \<and> result (bets (endGameAndProcessBets numberBetsDb (0, exampleGame) (3/8) 1000) ! 2) = Loss
   \<and> payout (bets (endGameAndProcessBets numberBetsDb (0, exampleGame) (3/8) 1000) ! 2)
       = amount (bets numberBetsDb ! 2) * 9
   \<and> resultNumber (games (endGameAndProcessBets numberBetsDb (0, exampleGame) (3/8) 1000) ! 0)
       = Some 3"
  by (simp add: settle_defs closedGame_def example_defs result_defs parse_defs
      decimalString_def digitsOf.simps)

text \<open>
  Claim C1, amended. Every bet of the round that is pending when
  \<^verbatim>\<open>endGameAndProcessBets\<close> runs is settled by it: afterwards its result is \<open>Win\<close>
  or \<open>Loss\<close>, never \<open>Pending\<close>; its payout is the stake times the multiplier (9 for
  \<^verbatim>\<open>number\<close>, 2 for \<^verbatim>\<open>color\<close>, 2 for \<^verbatim>\<open>size\<close>) when the selector matches the
  outcome stored on the round, and 0 otherwise; no other field of the bet changes. A
  \<^verbatim>\<open>color\<close> or \<^verbatim>\<open>size\<close> selector matches when it is the string of the outcome's
  class. A \<^verbatim>\<open>number\<close> selector matches when \<^verbatim>\<open>parseInt\<close> of it is the outcome:
  so every selector that consists of white space, the decimal numeral of the outcome
  and a rest that does not begin with a digit or \<^verbatim>\<open>x\<close> matches, the exact numeral
  among them. For a stake other than zero the payout is the stake times the multiplier
  only if the selector matches; for stake zero both payouts are 0. Stakes are integers
  with nine times the stake at most \<open>2 ^ 53\<close> in magnitude.
\<close>

theorem settlement_resolves_pending_bets:
  assumes "i < length (bets s)" and "gameId (bets s ! i) = gid"
    and "result (bets s ! i) = Pending"
    and "\<bar>amount (bets s ! i)\<bar> * 9 \<le> 2 ^ 53"
  shows "(let b = bets s ! i;
             rn = resolveResultNumber g r;
             b' = bets (endGameAndProcessBets s (gid, g) r now) ! i;
             m = (if betType b = js ''number'' then 9
                  else if betType b = js ''color'' then 2
                  else if betType b = js ''size'' then 2 else 1);
             wins = (if betType b = js ''number'' then parseInt (betValue b) = Some rn
                     else if betType b = js ''color'' then betValue b = js (resultColorOf rn)
                     else if betType b = js ''size'' then betValue b = js (resultSizeOf rn)
                     else False)
         in result b' \<noteq> Pending
            \<and> result b' = (if wins then Win else Loss)
            \<and> payout b' = (if wins then amount b * m else 0)
            \<and> (amount b \<noteq> 0 \<longrightarrow> (payout b' = amount b * m \<longleftrightarrow> wins))
            \<and> b' = b\<lparr>result := result b', payout := payout b'\<rparr>
            \<and> (gid < length (games s) \<longrightarrow>
                 resultNumber (games (endGameAndProcessBets s (gid, g) r now) ! gid) = Some rn)
            \<and> (betType b = js ''number'' \<and> betValue b = ws @ decimalString rn @ rest
                 \<and> (\<forall>c \<in> set ws. isWhiteSpace c)
                 \<and> (rest = [] \<or> (\<not> isRadixDigit 10 (hd rest) \<and> hd rest \<noteq> 120 \<and> hd rest \<noteq> 88))
                 \<and> \<bar>rn\<bar> < 2 ^ 53 \<longrightarrow>
                 result b' = Win \<and> payout b' = amount b * 9))"
proof -
  let ?b = "bets s ! i" and ?rn = "resolveResultNumber g r"
  have settled: "bets (endGameAndProcessBets s (gid, g) r now) ! i = settled ?rn ?b"
    using assms(1-3) by (rule endGame_bets_pending)
  have main: "result (settled ?rn ?b) \<noteq> Pending
      \<and> result (settled ?rn ?b) = (if isWin ?rn ?b then Win else Loss)
      \<and> payout (settled ?rn ?b) = (if isWin ?rn ?b then amount ?b * multiplier ?b else 0)
      \<and> (amount ?b \<noteq> 0 \<longrightarrow>
           (payout (settled ?rn ?b) = amount ?b * multiplier ?b \<longleftrightarrow> isWin ?rn ?b))
      \<and> settled ?rn ?b
          = ?b\<lparr>result := result (settled ?rn ?b), payout := payout (settled ?rn ?b)\<rparr>"
    by (simp add: settled_def multiplier_def)
  have stored: "gid < length (games s) \<longrightarrow>
      resultNumber (games (endGameAndProcessBets s (gid, g) r now) ! gid) = Some ?rn"
    by (simp add: closedGame_def Let_def)
  have win: "result (settled ?rn ?b) = Win \<and> payout (settled ?rn ?b) = amount ?b * 9"
    if "betType ?b = js ''number'' \<and> betValue ?b = ws @ decimalString ?rn @ rest
      \<and> (\<forall>c \<in> set ws. isWhiteSpace c)
      \<and> (rest = [] \<or> (\<not> isRadixDigit 10 (hd rest) \<and> hd rest \<noteq> 120 \<and> hd rest \<noteq> 88))
      \<and> \<bar>?rn\<bar> < 2 ^ 53"
  proof -
    from that have "parseInt (ws @ decimalString ?rn @ rest) = Some ?rn"
      by (intro parseInt_decimal_prefix) simp_all
    with that show ?thesis by (simp add: settled_def isWin_def multiplier_def)
  qed
  have w: "isWin ?rn ?b
      = (if betType ?b = js ''number'' then parseInt (betValue ?b) = Some ?rn
         else if betType ?b = js ''color'' then betValue ?b = js (resultColorOf ?rn)
         else if betType ?b = js ''size'' then betValue ?b = js (resultSizeOf ?rn)
         else False)"
    by (simp only: isWin_def)
  have m: "multiplier ?b = (if betType ?b = js ''number'' then 9
                  else if betType ?b = js ''color'' then 2
                  else if betType ?b = js ''size'' then 2 else 1)"
    by (simp only: multiplier_def)
  show ?thesis
    unfolding Let_def settled
    using main [unfolded w m] stored win by (intro conjI impI) (blast+)
qed

theorem settlement_resolves_pending_bets_witness:
  "3 < length (bets numberBetsDb) \<and> gameId (bets numberBetsDb ! 3) = 0
   \<and> result (bets numberBetsDb ! 3) = Pending
   \<and> \<bar>amount (bets numberBetsDb ! 3)\<bar> * 9 \<le> 2 ^ 53
   \<and> result (bets (endGameAndProcessBets numberBetsDb (0, exampleGame) (3/8) 1000) ! 3) = Loss
   \<and> payout (bets (endGameAndProcessBets numberBetsDb (0, exampleGame) (3/8) 1000) ! 3) = 0
   \<and> 0 < length (bets numberBetsDb) \<and> gameId (bets numberBetsDb ! 0) = 0
   \<and> result (bets numberBetsDb ! 0) = Pending
   \<and> \<bar>amount (bets numberBetsDb ! 0)\<bar> * 9 \<le> 2 ^ 53
   \<and> betValue (bets numberBetsDb ! 0) = [] @ decimalString 3 @ js ''abc''
   \<and> result (bets (endGameAndProcessBets numberBetsDb (0, exampleGame) (3/8) 1000) ! 0) = Win
   \<and> payout (bets (endGameAndProcessBets numberBetsDb (0, exampleGame) (3/8) 1000) ! 0) = 90
   \<and> 2 < length (bets exampleDb) \<and> gameId (bets exampleDb ! 2) = 0
   \<and> result (bets exampleDb ! 2) = Pending
   \<and> result (bets (endGameAndProcessBets exampleDb (0, exampleGame) (3/8) 1000) ! 2) = Win
   \<and> payout (bets (endGameAndProcessBets exampleDb (0, exampleGame) (3/8) 1000) ! 2) = 8"
proof -
  let ?E = "endGameAndProcessBets numberBetsDb (0, exampleGame) (3/8) 1000"
  let ?F = "endGameAndProcessBets exampleDb (0, exampleGame) (3/8) 1000"
  have rn: "resolveResultNumber exampleGame (3/8) = 3"
    by (simp add: exampleGame_def new_Game_def result_defs)
  have h3: "3 < length (bets numberBetsDb)" "gameId (bets numberBetsDb ! 3) = 0"
    "result (bets numberBetsDb ! 3) = Pending" "\<bar>amount (bets numberBetsDb ! 3)\<bar> * 9 \<le> 2 ^ 53"
    by (simp_all add: numberBetsDb_def new_Bet_def)
  have h0: "0 < length (bets numberBetsDb)" "gameId (bets numberBetsDb ! 0) = 0"
    "result (bets numberBetsDb ! 0) = Pending" "\<bar>amount (bets numberBetsDb ! 0)\<bar> * 9 \<le> 2 ^ 53"
    by (simp_all add: numberBetsDb_def new_Bet_def)
  have h2: "2 < length (bets exampleDb)" "gameId (bets exampleDb ! 2) = 0"
    "result (bets exampleDb ! 2) = Pending" "\<bar>amount (bets exampleDb ! 2)\<bar> * 9 \<le> 2 ^ 53"
    by (simp_all add: exampleDb_def new_Bet_def)
  have v0: "betValue (bets numberBetsDb ! 0) = [] @ decimalString 3 @ js ''abc''"
    by (simp add: numberBetsDb_def new_Bet_def js_def decimalString_def digitsOf.simps)
  have c0: "betType (bets numberBetsDb ! 0) = js ''number''
      \<and> betValue (bets numberBetsDb ! 0) = [] @ decimalString 3 @ js ''abc''
      \<and> (\<forall>c \<in> set []. isWhiteSpace c)
      \<and> (js ''abc'' = [] \<or> (\<not> isRadixDigit 10 (hd (js ''abc'')) \<and> hd (js ''abc'') \<noteq> 120
            \<and> hd (js ''abc'') \<noteq> 88))
      \<and> \<bar>3::int\<bar> < 2 ^ 53"
    using v0 by (simp add: numberBetsDb_def new_Bet_def js_def isRadixDigit_def digitValue_def)
  have a0: "amount (bets numberBetsDb ! 0) * 9 = 90"
    by (simp add: numberBetsDb_def new_Bet_def)
  have b3: "(if betType (bets numberBetsDb ! 3) = js ''number''
             then parseInt (betValue (bets numberBetsDb ! 3)) = Some 3
             else if betType (bets numberBetsDb ! 3) = js ''color''
                  then betValue (bets numberBetsDb ! 3) = js (resultColorOf 3)
                  else if betType (bets numberBetsDb ! 3) = js ''size''
                       then betValue (bets numberBetsDb ! 3) = js (resultSizeOf 3) else False)
            = False"
    by (simp add: numberBetsDb_def new_Bet_def parse_defs)
  have b2: "(if betType (bets exampleDb ! 2) = js ''number''
             then parseInt (betValue (bets exampleDb ! 2)) = Some 3
             else if betType (bets exampleDb ! 2) = js ''color''
                  then betValue (bets exampleDb ! 2) = js (resultColorOf 3)
                  else if betType (bets exampleDb ! 2) = js ''size''
                       then betValue (bets exampleDb ! 2) = js (resultSizeOf 3) else False)
            = True"
    and m2: "amount (bets exampleDb ! 2)
             * (if betType (bets exampleDb ! 2) = js ''number'' then 9
                else if betType (bets exampleDb ! 2) = js ''color'' then 2
                else if betType (bets exampleDb ! 2) = js ''size'' then 2 else 1) = 8"
    by (simp_all add: exampleDb_def new_Bet_def js_def resultSizeOf_def)
  note w3 = settlement_resolves_pending_bets
              [OF h3, where g = exampleGame and r = "3/8" and now = 1000 and ws = "[]"
                and rest = "[]", unfolded Let_def rn b3]
  note w0 = settlement_resolves_pending_bets
              [OF h0, where g = exampleGame and r = "3/8" and now = 1000 and ws = "[]"
                and rest = "js ''abc''", unfolded Let_def rn]
  note w2 = settlement_resolves_pending_bets
              [OF h2, where g = exampleGame and r = "3/8" and now = 1000 and ws = "[]"
                and rest = "[]", unfolded Let_def rn b2 m2]
  from w3 have r3: "result (bets ?E ! 3) = Loss \<and> payout (bets ?E ! 3) = 0"
    by simp
  from w0 c0 have "result (bets ?E ! 0) = Win
      \<and> payout (bets ?E ! 0) = amount (bets numberBetsDb ! 0) * 9"
    by blast
  then have r0: "result (bets ?E ! 0) = Win \<and> payout (bets ?E ! 0) = 90"
    by (simp only: a0)
  from w2 have r2: "result (bets ?F ! 2) = Win \<and> payout (bets ?F ! 2) = 8"
    by simp
  from r3 r0 r2 h3 h0 h2(1-3) v0 show ?thesis by blast
qed

text \<open>
  Claim C3. Settlement is idempotent: after \<^verbatim>\<open>endGameAndProcessBets\<close> has run for a
  round, no bet of that round is pending, so a second run for the same round (whatever
  game document, random draw and time it is given) changes no bet, credits no wallet
  and writes no transaction.
\<close>

theorem settlement_idempotent:
  "(let s1 = endGameAndProcessBets s (gid, g) r now;
        s2 = endGameAndProcessBets s1 (gid, g') r' now'
    in findPendingBets s1 gid = [] \<and> bets s2 = bets s1 \<and> wallets s2 = wallets s1
       \<and> transactions s2 = transactions s1)"
proof -
  let ?s1 = "endGameAndProcessBets s (gid, g) r now"
  have "findPendingBets ?s1 gid = []" by (rule endGame_no_pending_left)
  then show ?thesis
    by (simp add: Let_def endGameAndProcessBets_def [of ?s1])
qed

section \<open>Result generation\<close>

text \<open>
  Claim C4. When the round's \<^verbatim>\<open>fixedResult\<close> is set at closing, the result number is
  exactly that value, whatever \<^verbatim>\<open>Math.random()\<close> returns: the closed round is the
  same for every draw, and the value is the one stored. Only when \<^verbatim>\<open>fixedResult\<close> is
  \<^verbatim>\<open>null\<close> is the result \<^verbatim>\<open>Math.floor(Math.random() * 10)\<close>, with the product
  rounded to a double. It lies in 0..9 for every double \<open>0 \<le> r < 1\<close> (the largest is
  \<open>1 - 2 ^ - 53\<close>), and it is \<open>k\<close> on the draws with \<open>k \<le> 10 r < k + 1\<close>, up to
  one rounding step \<open>2 ^ - 50\<close> at the ends of the interval: each of the ten values
  has an interval of draws of length one tenth, so a uniform draw gives a uniform
  result. How \<^verbatim>\<open>Math.random()\<close> itself is distributed is left to the engine.
\<close>

theorem fixedResult_takes_precedence:
  "(fixedResult g = Some v \<longrightarrow>
      resolveResultNumber g r = v
      \<and> closedGame g r now = closedGame g r' now
      \<and> resultNumber (closedGame g r now) = Some v
      \<and> (gid < length (games s) \<longrightarrow>
           resultNumber (games (endGameAndProcessBets s (gid, g) r now) ! gid) = Some v))
   \<and> (fixedResult g = None \<longrightarrow>
      resolveResultNumber g r = randomResult r
      \<and> (0 \<le> r \<and> r \<le> 1 - 1 / 2 ^ 53 \<longrightarrow> 0 \<le> randomResult r \<and> randomResult r \<le> 9)
      \<and> (of_int k \<le> r * 10 \<and> r * 10 < of_int k + 1 - 1 / 2 ^ 50 \<longrightarrow> randomResult r = k)
      \<and> (randomResult r = k \<longrightarrow> of_int k - 1 / 2 ^ 50 \<le> r * 10 \<and> r * 10 < of_int k + 1))"
  using randomResult_range [of r] randomResult_interval [of k r] randomResult_preimage [of r k]
  by (simp add: resolveResultNumber_def closedGame_def)

theorem fixedResult_takes_precedence_witness:
  "fixedResult (exampleGame\<lparr>fixedResult := Some 7\<rparr>) = Some 7
   \<and> resolveResultNumber (exampleGame\<lparr>fixedResult := Some 7\<rparr>) (3/8) = 7
   \<and> 0 < length (games exampleDb)
   \<and> resultNumber (games (endGameAndProcessBets exampleDb
        (0, exampleGame\<lparr>fixedResult := Some 7\<rparr>) (3/8) 1000) ! 0) = Some 7
   \<and> fixedResult exampleGame = None
   \<and> (0::real) \<le> 3/8 \<and> (3/8::real) \<le> 1 - 1 / 2 ^ 53
   \<and> of_int 3 \<le> (3/8::real) * 10 \<and> (3/8::real) * 10 < of_int 3 + 1 - 1 / 2 ^ 50
   \<and> resolveResultNumber exampleGame (3/8) = 3
   \<and> randomResult (3/8) = 3
   \<and> randomResult (6305039478318694 / 9007199254740992) = 7"
proof -
  have f7: "fixedResult (exampleGame\<lparr>fixedResult := Some 7\<rparr>) = Some 7"
    and f0: "fixedResult exampleGame = None" and l: "0 < length (games exampleDb)"
    by (simp_all add: example_defs)
  have d: "(0::real) \<le> 3/8 \<and> (3/8::real) \<le> 1 - 1 / 2 ^ 53"
    and i: "of_int 3 \<le> (3/8::real) * 10 \<and> (3/8::real) * 10 < of_int 3 + 1 - 1 / 2 ^ 50"
    by simp_all
  have e: "randomResult (6305039478318694 / 9007199254740992) = 7"
    by (simp add: randomResult_def fl64_def ulp64_def roundHalfEven_def binadeUlp.simps)
  note t7 = fixedResult_takes_precedence
              [where g = "exampleGame\<lparr>fixedResult := Some 7\<rparr>" and v = 7 and r = "3/8"
                and now = 1000 and r' = "3/8" and gid = 0 and s = exampleDb and k = 3]
  note t0 = fixedResult_takes_precedence
              [where g = exampleGame and v = 7 and r = "3/8" and now = 1000 and r' = "3/8"
                and gid = 0 and s = exampleDb and k = 3]
  from t7 f7 l have "resolveResultNumber (exampleGame\<lparr>fixedResult := Some 7\<rparr>) (3/8) = 7
      \<and> resultNumber (games (endGameAndProcessBets exampleDb
           (0, exampleGame\<lparr>fixedResult := Some 7\<rparr>) (3/8) 1000) ! 0) = Some 7"
    by blast
  moreover from t0 f0 i have "resolveResultNumber exampleGame (3/8) = randomResult (3/8)
      \<and> randomResult (3/8) = 3"
    by blast
  ultimately show ?thesis using f7 f0 l d i e by simp
qed

text \<open>
  Claim C5. The classifications are functions of the result number alone: the colour
  is green for 0 and for every odd number and red for every even number other than 0;
  the size is big from 5 upwards and small below. The colour and size stored on a
  closed round are these functions of its result number, so two rounds closed with the
  same number carry the same colour and size.
\<close>

theorem classification_is_pure:
  "resultColorOf 0 = ''green''
   \<and> (odd n \<longrightarrow> resultColorOf n = ''green'')
   \<and> (even n \<and> n \<noteq> 0 \<longrightarrow> resultColorOf n = ''red'')
   \<and> (n \<ge> 5 \<longrightarrow> resultSizeOf n = ''big'')
   \<and> (n < 5 \<longrightarrow> resultSizeOf n = ''small'')
   \<and> resultColor (closedGame g r now) = Some (resultColorOf (resolveResultNumber g r))
   \<and> resultSize (closedGame g r now) = Some (resultSizeOf (resolveResultNumber g r))
   \<and> (resultNumber (closedGame g r now) = resultNumber (closedGame g' r' now') \<longrightarrow>
        resultColor (closedGame g r now) = resultColor (closedGame g' r' now')
        \<and> resultSize (closedGame g r now) = resultSize (closedGame g' r' now'))"
  by (simp add: resultColorOf_def resultSizeOf_def smod_2_eq_0_iff closedGame_def Let_def)

theorem classification_is_pure_witness:
  "odd (7::int) \<and> resultColorOf 7 = ''green'' \<and> even (4::int) \<and> (4::int) \<noteq> 0
   \<and> resultColorOf 4 = ''red'' \<and> (7::int) \<ge> 5 \<and> resultSizeOf 7 = ''big''
   \<and> (4::int) < 5 \<and> resultSizeOf 4 = ''small''
   \<and> resultNumber (closedGame exampleGame (35/100) 1000)
       = resultNumber (closedGame (exampleGame\<lparr>fixedResult := Some 3\<rparr>) (99/100) 2000)
   \<and> resultColor (closedGame exampleGame (35/100) 1000)
       = resultColor (closedGame (exampleGame\<lparr>fixedResult := Some 3\<rparr>) (99/100) 2000)"
  using classification_is_pure [of 7 exampleGame "35/100" 1000 "exampleGame\<lparr>fixedResult := Some 3\<rparr>" "99/100" 2000]
    classification_is_pure [of 4 exampleGame "35/100" 1000 "exampleGame\<lparr>fixedResult := Some 3\<rparr>" "99/100" 2000]
  by (simp add: exampleGame_def new_Game_def closedGame_def resolveResultNumber_def
      randomResult_eval)

section \<open>Round creation\<close>

text \<open>
  Claim C6 as stated says that \<^verbatim>\<open>createNewGameSafely\<close> returns nothing while a round
  is waiting or betting. It returns the existing round instead: here for the open round
  of the example database, in both copies.
\<close>

theorem create_returns_existing_round_counterexample:
  "isActive (games exampleDb ! 0)
   \<and> snd (createNewGameSafely_v2 exampleDb 5000) = Some (0, exampleGame)
   \<and> snd (createNewGameSafely exampleDb 5000) = Some (0, exampleGame)
   \<and> snd (createNewGameSafely_v2 exampleDb 5000) \<noteq> None"
  by (simp add: createNewGameSafely_v2_def createNewGameSafely_def createNewGameSafelyN_def
      findActiveGame_def findActiveGames_def isActive_def example_defs)

text \<open>
  Claim C6, amended. While some round is waiting or betting, a call of
  \<^verbatim>\<open>createNewGameSafely\<close> creates no round; it returns the active round created last,
  or \<^verbatim>\<open>null\<close> when a creation is already in progress. So any sequence of creation
  attempts leaves the collection of rounds as it is.
\<close>

theorem create_is_noop_while_round_active:
  assumes "g \<in> set (games s)" and "isActive g"
  shows "findActiveGame s \<noteq> None
    \<and> games (fst (createNewGameSafelyN maxAttempts s now)) = games s
    \<and> snd (createNewGameSafelyN maxAttempts s now)
        = (if gameCreationInProgress s then None else findActiveGame s)
    \<and> games (createAttempts maxAttempts ts s) = games s"
proof -
  from assms have "findActiveGame s \<noteq> None"
    by (auto simp: findActiveGame_None_iff)
  then obtain d where d: "findActiveGame s = Some d" by blast
  show ?thesis
    using createNewGameSafelyN_active [OF d] createAttempts_active [OF d] d by simp
qed

theorem create_is_noop_while_round_active_witness:
  "exampleGame \<in> set (games exampleDb) \<and> isActive exampleGame
   \<and> games (fst (createNewGameSafelyN 5 exampleDb 5000)) = [exampleGame]
   \<and> snd (createNewGameSafelyN 5 exampleDb 5000) = Some (0, exampleGame)
   \<and> games (createAttempts 5 [5000, 6000, 7000] exampleDb) = [exampleGame]"
proof -
  have h1: "exampleGame \<in> set (games exampleDb)" by (simp add: exampleDb_def)
  have h2: "isActive exampleGame" by (simp add: isActive_def exampleGame_def new_Game_def)
  have f: "findActiveGame exampleDb = Some (0, exampleGame)"
    by (simp add: findActiveGame_def findActiveGames_def isActive_def example_defs)
  show ?thesis
    using create_is_noop_while_round_active [OF h1 h2, of 5 5000 "[5000, 6000, 7000]"] h1 h2 f
    by (simp add: exampleDb_def)
qed

section \<open>Crediting the winners\<close>

text \<open>
  Claim C8 as stated says that a bet is never left as won without the credit of its
  payout, and that a credit that cannot be applied is reported. In the example
  database user 7 has no wallet document: the bet on number 3 is settled as a win with
  payout 90, no wallet is credited for it, and settlement goes on (user 9 is credited)
  without any error.
\<close>

theorem won_without_credit_counterexample:
  "result (bets exampleDb ! 0) = Pending \<and> userId (bets exampleDb ! 0) = 7
   \<and> wallets exampleDb 7 = None
   \<and> result (bets (endGameAndProcessBets exampleDb (0, exampleGame) (35/100) 1000) ! 0) = Win
   \<and> payout (bets (endGameAndProcessBets exampleDb (0, exampleGame) (35/100) 1000) ! 0) = 90
   \<and> wallets (endGameAndProcessBets exampleDb (0, exampleGame) (35/100) 1000) 7 = None
   \<and> wallets (endGameAndProcessBets exampleDb (0, exampleGame) (35/100) 1000) 8 = Some 100
   \<and> wallets (endGameAndProcessBets exampleDb (0, exampleGame) (35/100) 1000) 9 = Some 9"
  by (simp add: settle_defs example_defs result_defs parse_defs)

text \<open>
  Claim C8, amended. Settlement never marks a winning bet as lost: every pending bet
  of the round that matches is saved as \<open>Win\<close> with its payout, and a \<^verbatim>\<open>win\<close>
  transaction is appended for each of them in order. The payouts are added to the
  balance of the user's wallet document when there is one; when there is none the
  credit is skipped, nothing is reported, and the bet stays \<open>Win\<close>.
\<close>

theorem winning_bet_credit_only_if_wallet:
  "(let s' = endGameAndProcessBets s (gid, g) r now;
        rn = resolveResultNumber g r;
        pending = map snd (findPendingBets s gid)
    in wallets s' u = (case wallets s u of None \<Rightarrow> None
                       | Some bal \<Rightarrow> Some (bal + winnings rn u pending))
       \<and> transactions s'
           = transactions s @ map (\<lambda>b. winTransaction (settled rn b)) (filter (isWin rn) pending)
       \<and> (i < length (bets s) \<and> gameId (bets s ! i) = gid \<and> result (bets s ! i) = Pending
            \<and> isWin rn (bets s ! i) \<longrightarrow>
          result (bets s' ! i) = Win
          \<and> payout (bets s' ! i) = amount (bets s ! i) * multiplier (bets s ! i)))"
proof -
  let ?s1 = "s\<lparr>games := (games s)[gid := closedGame g r now]\<rparr>"
  let ?rn = "resolveResultNumber g r"
  have w: "wallets (endGameAndProcessBets s (gid, g) r now) u
      = (case wallets s u of None \<Rightarrow> None
         | Some bal \<Rightarrow> Some (bal + winnings ?rn u (map snd (findPendingBets s gid))))"
    by (cases "wallets s u")
       (simp_all add: endGameAndProcessBets_def Let_def processBets_wallets)
  have t: "transactions (endGameAndProcessBets s (gid, g) r now)
      = transactions s @ map (\<lambda>b. winTransaction (settled ?rn b))
          (filter (isWin ?rn) (map snd (findPendingBets s gid)))"
    by (simp add: endGameAndProcessBets_def Let_def processBets_transactions)
  have b: "result (bets (endGameAndProcessBets s (gid, g) r now) ! i) = Win
      \<and> payout (bets (endGameAndProcessBets s (gid, g) r now) ! i)
          = amount (bets s ! i) * multiplier (bets s ! i)"
    if "i < length (bets s)" "gameId (bets s ! i) = gid" "result (bets s ! i) = Pending"
      "isWin ?rn (bets s ! i)"
    using that by (simp add: endGame_bets_pending settled_def)
  show ?thesis
    unfolding Let_def
  proof (intro conjI impI)
    show "wallets (endGameAndProcessBets s (gid, g) r now) u
      = (case wallets s u of None \<Rightarrow> None
         | Some bal \<Rightarrow> Some (bal + winnings ?rn u (map snd (findPendingBets s gid))))"
      by (rule w)
    show "transactions (endGameAndProcessBets s (gid, g) r now)
      = transactions s @ map (\<lambda>b. winTransaction (settled ?rn b))
          (filter (isWin ?rn) (map snd (findPendingBets s gid)))"
      by (rule t)
  next
    assume a: "i < length (bets s) \<and> gameId (bets s ! i) = gid \<and> result (bets s ! i) = Pending
            \<and> isWin ?rn (bets s ! i)"
    then show "result (bets (endGameAndProcessBets s (gid, g) r now) ! i) = Win"
      using b by blast
    from a show "payout (bets (endGameAndProcessBets s (gid, g) r now) ! i)
          = amount (bets s ! i) * multiplier (bets s ! i)"
      using b by blast
  qed
qed


theorem winning_bet_credit_only_if_wallet_witness:
  "0 < length (bets exampleDb) \<and> gameId (bets exampleDb ! 0) = 0
   \<and> result (bets exampleDb ! 0) = Pending
   \<and> isWin (resolveResultNumber exampleGame (35/100)) (bets exampleDb ! 0)
   \<and> result (bets (endGameAndProcessBets exampleDb (0, exampleGame) (35/100) 1000) ! 0) = Win
   \<and> wallets (endGameAndProcessBets exampleDb (0, exampleGame) (35/100) 1000) 7 = None
   \<and> wallets (endGameAndProcessBets exampleDb (0, exampleGame) (35/100) 1000) 9 = Some 9"
proof -
  have h: "0 < length (bets exampleDb) \<and> gameId (bets exampleDb ! 0) = 0
      \<and> result (bets exampleDb ! 0) = Pending
      \<and> isWin (resolveResultNumber exampleGame (35/100)) (bets exampleDb ! 0)"
    by (simp add: example_defs result_defs parse_defs isWin_def)
  have w7: "wallets exampleDb 7 = None" and w9: "wallets exampleDb 9 = Some 1"
    by (simp_all add: exampleDb_def)
  have p: "winnings (resolveResultNumber exampleGame (35/100)) 9
             (map snd (findPendingBets exampleDb 0)) = 8"
    by (simp add: example_defs result_defs parse_defs isWin_def multiplier_def winnings_def
        findPendingBets_def)
  note t7 = winning_bet_credit_only_if_wallet
              [of exampleDb 0 exampleGame "35/100" 1000 7 0, unfolded Let_def]
  note t9 = winning_bet_credit_only_if_wallet
              [of exampleDb 0 exampleGame "35/100" 1000 9 0, unfolded Let_def]
  from t7 h have "result (bets (endGameAndProcessBets exampleDb (0, exampleGame) (35/100) 1000) ! 0) = Win"
    by blast
  moreover from t7 have "wallets (endGameAndProcessBets exampleDb (0, exampleGame) (35/100) 1000) 7 = None"
    by (simp only: w7 option.case)
  moreover from t9 have "wallets (endGameAndProcessBets exampleDb (0, exampleGame) (35/100) 1000) 9 = Some 9"
    by (simp only: w9 p option.case) simp
  ultimately show ?thesis using h by blast
qed

section \<open>Placing a bet\<close>

text \<open>
  Claim C9. \<^verbatim>\<open>POST /bet\<close> is refused, with the database unchanged (no bet, no debit)
  and status 400, exactly when the round is not open for betting (no such round, or
  its status is not \<^verbatim>\<open>betting\<close>), or the user already has a bet on the round, or the
  balance is insufficient (no wallet document, or a balance below the amount).
  Otherwise the bet is appended as pending with payout 0, the amount is subtracted
  from the user's balance, the other wallets and the rounds stay as they are, and a
  \<^verbatim>\<open>bet\<close> transaction is recorded.
\<close>

theorem postBet_rejects_exactly_when:
  "(let notOpen = (case findGameById s gid of None \<Rightarrow> True | Some g \<Rightarrow> status g \<noteq> Betting);
        alreadyBet = (List.find (\<lambda>b. userId b = u \<and> gameId b = gid) (bets s) \<noteq> None);
        insufficient = (case wallets s u of None \<Rightarrow> True | Some bal \<Rightarrow> bal < amt);
        s' = fst (postBet s u gid ty v amt);
        res = snd (postBet s u gid ty v amt)
    in (notOpen \<or> alreadyBet \<or> insufficient \<longrightarrow>
          s' = s \<and> (\<exists>msg. res = Status400 msg))
       \<and> (\<not> (notOpen \<or> alreadyBet \<or> insufficient) \<longrightarrow>
          bets s' = bets s @ [new_Bet u gid ty v amt]
          \<and> res = Status200 (length (bets s), new_Bet u gid ty v amt)
          \<and> wallets s' u = Some (the (wallets s u) - amt)
          \<and> (\<forall>u'. u' \<noteq> u \<longrightarrow> wallets s' u' = wallets s u')
          \<and> games s' = games s
          \<and> transactions s' = transactions s @ [betTransaction u amt]))"
  by (auto simp: postBet_def Let_def split: option.splits)

theorem postBet_rejects_exactly_when_witness:
  "findGameById exampleDb 0 = Some exampleGame \<and> status exampleGame = Betting
   \<and> List.find (\<lambda>b. userId b = 5 \<and> gameId b = 0) (bets exampleDb) = None
   \<and> wallets (exampleDb\<lparr>wallets := [5 \<mapsto> 50]\<rparr>) 5 = Some 50 \<and> \<not> (50 < (20::int))
   \<and> wallets (fst (postBet (exampleDb\<lparr>wallets := [5 \<mapsto> 50]\<rparr>) 5 0 (js ''size'') (js ''big'') 20)) 5 = Some 30
   \<and> length (bets (fst (postBet (exampleDb\<lparr>wallets := [5 \<mapsto> 50]\<rparr>) 5 0 (js ''size'') (js ''big'') 20))) = 4
   \<and> List.find (\<lambda>b. userId b = 8 \<and> gameId b = 0) (bets exampleDb) \<noteq> None
   \<and> fst (postBet exampleDb 8 0 (js ''size'') (js ''big'') 20) = exampleDb"
  using postBet_rejects_exactly_when [of "exampleDb\<lparr>wallets := [5 \<mapsto> 50]\<rparr>" 0 5 20 "js ''size''" "js ''big''"]
    postBet_rejects_exactly_when [of exampleDb 0 8 20 "js ''size''" "js ''big''"]
  by (simp add: example_defs findGameById_def Let_def)



section \<open>Closed rounds\<close>

text \<open>
  Claim C2 has two halves. The first holds in both copies: a transition never stores
  an outcome on a round that is waiting or betting (\<open>outcome_only_when_closed\<close>,
  \<open>outcome_only_when_closed_v2\<close>). The second, that a completed round is never
  changed again, holds for every transition of the later copy, for the round document
  and for the bets placed on it (\<open>closed_round_never_changes_v2\<close>), and fails in the
  named file.

  Claim C2, at the failing input. In the named file \<^verbatim>\<open>PUT /:id/end\<close> does not look
  at the status of the round: for the round of the example, closed with outcome 3 at
  time 1000, it draws again and stores outcome 7 (green, big) and end time 2000. The
  later copy refuses the same request and leaves the database as it is.
\<close>

theorem putEnd_overwrites_closed_round:
  "status (games closedExampleDb ! 0) = Completed
   \<and> resultNumber (games closedExampleDb ! 0) = Some 3
   \<and> endTime (games closedExampleDb ! 0) = Some 1000
   \<and> resultNumber (games (fst (putEnd closedExampleDb 0 (75/100) 2000)) ! 0) = Some 7
   \<and> resultColor (games (fst (putEnd closedExampleDb 0 (75/100) 2000)) ! 0) = Some ''green''
   \<and> resultSize (games (fst (putEnd closedExampleDb 0 (75/100) 2000)) ! 0) = Some ''big''
   \<and> endTime (games (fst (putEnd closedExampleDb 0 (75/100) 2000)) ! 0) = Some 2000
   \<and> fst (putEnd_v2 closedExampleDb 0 (75/100) 2000) = closedExampleDb"
  by (simp add: putEnd_def putEnd_v2_def findGameById_def closedGame_def example_defs result_defs)

section \<open>Starting and stopping continuous mode\<close>

text \<open>
  Claim C7. For every active round, \<^verbatim>\<open>POST /start-continuous\<close> only sets the status
  and the end time and leaves all bets and wallets as they are
  (\<open>postStartContinuous_effect\<close>, \<open>postStartContinuous_v2_effect\<close>), whereas
  \<^verbatim>\<open>POST /stop-continuous\<close> closes every active round with an outcome and leaves
  none of its bets pending (\<open>postStopContinuous_effect\<close>).

  Claim C7, at the failing input. \<^verbatim>\<open>POST /start-continuous\<close> (both copies) marks the
  open round of the example completed with \<^verbatim>\<open>updateMany\<close>: the round gets no result
  number and its three bets stay pending, no wallet is credited.
  \<^verbatim>\<open>POST /stop-continuous\<close> on the same database ends the round with
  \<^verbatim>\<open>endGameAndProcessBets\<close>: the round gets its outcome and the bets are settled.
\<close>

theorem startContinuous_leaves_bets_pending:
  "status (games exampleDb ! 0) = Betting \<and> result (bets exampleDb ! 0) = Pending
   \<and> status (games (fst (postStartContinuous_v2 exampleDb 5000)) ! 0) = Completed
   \<and> resultNumber (games (fst (postStartContinuous_v2 exampleDb 5000)) ! 0) = None
   \<and> bets (fst (postStartContinuous_v2 exampleDb 5000)) = bets exampleDb
   \<and> wallets (fst (postStartContinuous_v2 exampleDb 5000)) = wallets exampleDb
   \<and> status (games (fst (postStartContinuous exampleDb 5000)) ! 0) = Completed
   \<and> resultNumber (games (fst (postStartContinuous exampleDb 5000)) ! 0) = None
   \<and> bets (fst (postStartContinuous exampleDb 5000)) = bets exampleDb
   \<and> result (bets (postStopContinuous exampleDb (\<lambda>k. 35/100) 5000) ! 0) = Win
   \<and> resultNumber (games (postStopContinuous exampleDb (\<lambda>k. 35/100) 5000) ! 0) = Some 3"
  by (simp add: postStartContinuous_v2_def postStartContinuous_def postStopContinuous_def
      createNewGameSafely_v2_def createNewGameSafely_def createNewGameSafelyN_def
      completeActiveGames_def findActiveGame_def findActiveGames_def isActive_def
      nextGameNumber_def saveNewGame_def closedGame_def settle_defs example_defs result_defs
      parse_defs)

end
